theory Spec2Isabelle
  imports Main
begin

section \<open>The Observer/Observable core of index.ts\<close>

text \<open>
  The core of \<^verbatim>\<open>src/index.ts\<close> is two classes: \<^verbatim>\<open>Observer\<close>, a gate in front of
  three optional callbacks, and \<^verbatim>\<open>Observable\<close>, a wrapper around a producer function.
  Everything the classes do is calling closures that the user supplied, and those
  closures may call back into an \<^verbatim>\<open>Observer\<close>. The model therefore has

  \<^item> a heap of \<^verbatim>\<open>Observer\<close> objects, addressed by references (the position in the
    heap), because several subscriptions live side by side and closures share them;
  \<^item> closures as data: the body of a user closure is the list of things it does that
    the core can see, namely calls of \<^verbatim>\<open>Observer\<close> methods, \<^verbatim>\<open>console.log\<close> and \<^verbatim>\<open>throw\<close>;
  \<^item> a trace that records every invocation of a user callback by the core, which is
    what the specification counts;
  \<^item> exceptions as a result value, and a bound on the depth of nested closure calls
    (the JavaScript call stack), since a callback that re-enters the \<^verbatim>\<open>Observer\<close> that
    called it can recurse forever.
\<close>

subsection \<open>Data\<close>

type_synonym ref = nat

text \<open>What a user closure does, as far as the core is concerned. \<open>'a\<close> is the type
  \<^verbatim>\<open>T\<close> of the emitted values, \<open>'x\<close> the type \<^verbatim>\<open>ApiError\<close> (\<^verbatim>\<open>unknown\<close>), which is also the
  type of thrown values.\<close>

datatype ('a, 'x) stmt =
    CallNext ref 'a
  | CallError ref 'x
  | CallComplete ref
  | CallUnsubscribe ref
  | ConsoleLog string
  | Throw 'x

type_synonym ('a, 'x) closure = "('a, 'x) stmt list"

text \<open>\<^verbatim>\<open>type Handler<T> = { next?: ...; error?: ...; complete?: ... }\<close>\<close>

record ('a, 'x) Handler =
  h_next :: "('a \<Rightarrow> ('a, 'x) closure) option"
  h_error :: "('x \<Rightarrow> ('a, 'x) closure) option"
  h_complete :: "('a, 'x) closure option"

text \<open>\<^verbatim>\<open>class Observer<T>\<close>: the fields \<^verbatim>\<open>handlers\<close>, \<^verbatim>\<open>isUnsubscribed\<close> and
  \<^verbatim>\<open>_unsubscribe\<close>.\<close>

record ('a, 'x) Observer =
  handlers :: "('a, 'x) Handler"
  isUnsubscribed :: bool
  unsubscribe_cb :: "('a, 'x) closure option"

text \<open>One entry of the trace for each invocation of a user callback by the core.\<close>

datatype ('a, 'x) event =
    NextCalled ref 'a
  | ErrorCalled ref 'x
  | CompleteCalled ref
  | TeardownCalled ref

record ('a, 'x) world =
  heap :: "('a, 'x) Observer list"
  trace :: "('a, 'x) event list"
  console :: "string list"

text \<open>The outcome of a call: it returns, it throws, or the call stack is exhausted.
  The world at the moment of the throw is kept, since what was done before stays done.\<close>

datatype ('r, 'a, 'x) result =
    Return 'r "('a, 'x) world"
  | Thrown 'x "('a, 'x) world"
  | StackOverflow

type_synonym ('a, 'x) invoker =
  "('a, 'x) closure \<Rightarrow> ('a, 'x) world \<Rightarrow> (unit, 'a, 'x) result"

subsection \<open>Observer\<close>

text \<open>The constructor: \<^verbatim>\<open>this.handlers = handlers; this.isUnsubscribed = false;\<close>
  with \<^verbatim>\<open>_unsubscribe\<close> left undefined.\<close>

definition Observer_new :: "('a, 'x) Handler \<Rightarrow> ('a, 'x) Observer" where
  "Observer_new hs = \<lparr>handlers = hs, isUnsubscribed = False, unsubscribe_cb = None\<rparr>"

text \<open>The steps the methods are made of: an entry in the trace, and the two assignments
  \<^verbatim>\<open>this.isUnsubscribed = true\<close> and \<^verbatim>\<open>observer._unsubscribe = ...\<close>.\<close>

definition record_event :: "('a, 'x) event \<Rightarrow> ('a, 'x) world \<Rightarrow> ('a, 'x) world" where
  "record_event e w = w\<lparr>trace := trace w @ [e]\<rparr>"

definition set_isUnsubscribed :: "ref \<Rightarrow> ('a, 'x) world \<Rightarrow> ('a, 'x) world" where
  "set_isUnsubscribed this w =
     w\<lparr>heap := (heap w)[this := (heap w ! this)\<lparr>isUnsubscribed := True\<rparr>]\<rparr>"

definition set_unsubscribe_cb ::
  "ref \<Rightarrow> ('a, 'x) closure \<Rightarrow> ('a, 'x) world \<Rightarrow> ('a, 'x) world" where
  "set_unsubscribe_cb this td w =
     w\<lparr>heap := (heap w)[this := (heap w ! this)\<lparr>unsubscribe_cb := Some td\<rparr>]\<rparr>"

text \<open>The methods take the invoker \<open>call\<close> that runs a closure body, and \<open>this\<close>. A
  reference that was never allocated cannot occur in JavaScript; on one the methods do
  nothing.\<close>

text \<open>\<^verbatim>\<open>unsubscribe() { this.isUnsubscribed = true; if (this._unsubscribe) { this._unsubscribe(); } }\<close>\<close>

definition Observer_unsubscribe ::
  "('a, 'x) invoker \<Rightarrow> ref \<Rightarrow> ('a, 'x) world \<Rightarrow> (unit, 'a, 'x) result" where
  "Observer_unsubscribe call this w =
     (if this < length (heap w) then
        (let w1 = set_isUnsubscribed this w in
         case unsubscribe_cb (heap w1 ! this) of
           Some td \<Rightarrow> call td (record_event (TeardownCalled this) w1)
         | None \<Rightarrow> Return () w1)
      else Return () w)"

text \<open>\<^verbatim>\<open>next(value) { if (this.handlers.next && !this.isUnsubscribed) { this.handlers.next(value); } }\<close>\<close>

definition Observer_next ::
  "('a, 'x) invoker \<Rightarrow> ref \<Rightarrow> 'a \<Rightarrow> ('a, 'x) world \<Rightarrow> (unit, 'a, 'x) result" where
  "Observer_next call this v w =
     (if this < length (heap w) then
        (case h_next (handlers (heap w ! this)) of
           Some f \<Rightarrow>
             if \<not> isUnsubscribed (heap w ! this)
             then call (f v) (record_event (NextCalled this v) w)
             else Return () w
         | None \<Rightarrow> Return () w)
      else Return () w)"

text \<open>\<^verbatim>\<open>error(error) { if (!this.isUnsubscribed) { if (this.handlers.error) { this.handlers.error(error); } this.unsubscribe(); } }\<close>
  A handler that throws ends the method before \<^verbatim>\<open>this.unsubscribe()\<close>.\<close>

definition Observer_error ::
  "('a, 'x) invoker \<Rightarrow> ref \<Rightarrow> 'x \<Rightarrow> ('a, 'x) world \<Rightarrow> (unit, 'a, 'x) result" where
  "Observer_error call this e w =
     (if this < length (heap w) then
        (if \<not> isUnsubscribed (heap w ! this) then
           (case (case h_error (handlers (heap w ! this)) of
                    Some f \<Rightarrow> call (f e) (record_event (ErrorCalled this e) w)
                  | None \<Rightarrow> Return () w) of
              Return _ w' \<Rightarrow> Observer_unsubscribe call this w'
            | Thrown x w' \<Rightarrow> Thrown x w'
            | StackOverflow \<Rightarrow> StackOverflow)
         else Return () w)
      else Return () w)"

text \<open>\<^verbatim>\<open>complete() { if (!this.isUnsubscribed) { if (this.handlers.complete) { this.handlers.complete(); } this.unsubscribe(); } }\<close>\<close>

definition Observer_complete ::
  "('a, 'x) invoker \<Rightarrow> ref \<Rightarrow> ('a, 'x) world \<Rightarrow> (unit, 'a, 'x) result" where
  "Observer_complete call this w =
     (if this < length (heap w) then
        (if \<not> isUnsubscribed (heap w ! this) then
           (case (case h_complete (handlers (heap w ! this)) of
                    Some f \<Rightarrow> call f (record_event (CompleteCalled this) w)
                  | None \<Rightarrow> Return () w) of
              Return _ w' \<Rightarrow> Observer_unsubscribe call this w'
            | Thrown x w' \<Rightarrow> Thrown x w'
            | StackOverflow \<Rightarrow> StackOverflow)
         else Return () w)
      else Return () w)"

subsection \<open>Running closures\<close>

fun step :: "('a, 'x) invoker \<Rightarrow> ('a, 'x) stmt \<Rightarrow> ('a, 'x) world \<Rightarrow> (unit, 'a, 'x) result" where
  "step call (CallNext r v) w = Observer_next call r v w"
| "step call (CallError r e) w = Observer_error call r e w"
| "step call (CallComplete r) w = Observer_complete call r w"
| "step call (CallUnsubscribe r) w = Observer_unsubscribe call r w"
| "step call (ConsoleLog s) w = Return () (w\<lparr>console := console w @ [s]\<rparr>)"
| "step call (Throw x) w = Thrown x w"

text \<open>The statements of a body run in order; a throw ends the body.\<close>

fun exec :: "('a, 'x) invoker \<Rightarrow> ('a, 'x) closure \<Rightarrow> ('a, 'x) world \<Rightarrow> (unit, 'a, 'x) result" where
  "exec call [] w = Return () w"
| "exec call (s # ss) w =
     (case step call s w of
        Return _ w' \<Rightarrow> exec call ss w'
      | Thrown x w' \<Rightarrow> Thrown x w'
      | StackOverflow \<Rightarrow> StackOverflow)"

text \<open>\<open>run n\<close> invokes a closure with room for \<open>n\<close> frames on the call stack: the body
  takes one, and the closures it invokes run with one less.\<close>

fun run :: "nat \<Rightarrow> ('a, 'x) closure \<Rightarrow> ('a, 'x) world \<Rightarrow> (unit, 'a, 'x) result" where
  "run 0 body w = StackOverflow"
| "run (Suc n) body w = exec (run n) body w"

subsection \<open>Observable\<close>

text \<open>\<^verbatim>\<open>class Observable<T>\<close> has the one field \<^verbatim>\<open>_subscribe\<close>, the producer. A producer
  \<^verbatim>\<open>(observer) => { body; return teardown }\<close> is the pair of its body and of the
  teardown closure it returns, both depending on the Observer it is given.\<close>

record ('a, 'x) Observable =
  subscribe_fn :: "ref \<Rightarrow> ('a, 'x) closure \<times> ('a, 'x) closure"

datatype subscription = Subscription ref

text \<open>\<^verbatim>\<open>from(values)\<close>: the producer is
  \<^verbatim>\<open>(observer) => { values.forEach((value) => observer.next(value)); observer.complete(); return () => { console.log("unsubscribed"); }; }\<close>\<close>

definition Observable_from :: "'a list \<Rightarrow> ('a, 'x) Observable" where
  "Observable_from values =
     \<lparr>subscribe_fn = (\<lambda>observer.
        (map (\<lambda>value. CallNext observer value) values @ [CallComplete observer],
         [ConsoleLog ''unsubscribed'']))\<rparr>"

text \<open>\<^verbatim>\<open>subscribe(handlers) { const observer = new Observer(handlers); observer._unsubscribe = this._subscribe(observer); return { unsubscribe() { observer.unsubscribe(); } }; }\<close>
  The new Observer goes to the end of the heap; the field is assigned when, and only
  when, the producer has returned.\<close>

definition Observable_subscribe ::
  "('a, 'x) invoker \<Rightarrow> ('a, 'x) Observable \<Rightarrow> ('a, 'x) Handler \<Rightarrow> ('a, 'x) world
     \<Rightarrow> (subscription, 'a, 'x) result" where
  "Observable_subscribe call this hs w =
     (let observer = length (heap w);
          w1 = w\<lparr>heap := heap w @ [Observer_new hs]\<rparr>;
          (body, teardown) = subscribe_fn this observer
      in case call body w1 of
           Return _ w2 \<Rightarrow> Return (Subscription observer) (set_unsubscribe_cb observer teardown w2)
         | Thrown x w2 \<Rightarrow> Thrown x w2
         | StackOverflow \<Rightarrow> StackOverflow)"

fun subscription_unsubscribe ::
  "('a, 'x) invoker \<Rightarrow> subscription \<Rightarrow> ('a, 'x) world \<Rightarrow> (unit, 'a, 'x) result" where
  "subscription_unsubscribe call (Subscription observer) w = Observer_unsubscribe call observer w"

subsection \<open>Reading results and traces\<close>

text \<open>The world a call leaves behind, whether it returned or threw.\<close>

fun result_world :: "('r, 'a, 'x) result \<Rightarrow> ('a, 'x) world option" where
  "result_world (Return _ w) = Some w"
| "result_world (Thrown _ w) = Some w"
| "result_world StackOverflow = None"

text \<open>\<open>handler_returned call s w\<close>: the handler that the method call \<open>s\<close> invokes in the
  world \<open>w\<close>, if it invokes one, returns; it neither throws nor exhausts the stack.\<close>

fun returned :: "('r, 'a, 'x) result \<Rightarrow> bool" where
  "returned (Return _ _) = True"
| "returned (Thrown _ _) = False"
| "returned StackOverflow = False"

fun handler_returned :: "('a, 'x) invoker \<Rightarrow> ('a, 'x) stmt \<Rightarrow> ('a, 'x) world \<Rightarrow> bool" where
  "handler_returned call (CallError this e) w =
     (isUnsubscribed (heap w ! this) \<or>
      (case h_error (handlers (heap w ! this)) of
         None \<Rightarrow> True
       | Some f \<Rightarrow> returned (call (f e) (record_event (ErrorCalled this e) w))))"
| "handler_returned call (CallComplete this) w =
     (isUnsubscribed (heap w ! this) \<or>
      (case h_complete (handlers (heap w ! this)) of
         None \<Rightarrow> True
       | Some g \<Rightarrow> returned (call g (record_event (CompleteCalled this) w))))"
| "handler_returned call (CallNext this v) w =
     (isUnsubscribed (heap w ! this) \<or>
      (case h_next (handlers (heap w ! this)) of
         None \<Rightarrow> True
       | Some f \<Rightarrow> returned (call (f v) (record_event (NextCalled this v) w))))"
| "handler_returned call _ w = True"

text \<open>The invocations of the handlers of one Observer, of its teardown, and all its events,
  as they stand in a trace.\<close>

fun is_handler_call :: "ref \<Rightarrow> ('a, 'x) event \<Rightarrow> bool" where
  "is_handler_call r (NextCalled r' _) = (r' = r)"
| "is_handler_call r (ErrorCalled r' _) = (r' = r)"
| "is_handler_call r (CompleteCalled r') = (r' = r)"
| "is_handler_call r (TeardownCalled _) = False"

fun is_teardown_call :: "ref \<Rightarrow> ('a, 'x) event \<Rightarrow> bool" where
  "is_teardown_call r (TeardownCalled r') = (r' = r)"
| "is_teardown_call r _ = False"

definition handler_calls :: "ref \<Rightarrow> ('a, 'x) event list \<Rightarrow> ('a, 'x) event list" where
  "handler_calls r tr = filter (is_handler_call r) tr"

definition teardown_calls :: "ref \<Rightarrow> ('a, 'x) event list \<Rightarrow> ('a, 'x) event list" where
  "teardown_calls r tr = filter (is_teardown_call r) tr"

fun event_ref :: "('a, 'x) event \<Rightarrow> ref" where
  "event_ref (NextCalled r _) = r"
| "event_ref (ErrorCalled r _) = r"
| "event_ref (CompleteCalled r) = r"
| "event_ref (TeardownCalled r) = r"

definition events_of :: "ref \<Rightarrow> ('a, 'x) event list \<Rightarrow> ('a, 'x) event list" where
  "events_of b tr = filter (\<lambda>e. event_ref e = b) tr"

subsection \<open>Closures that only log\<close>

text \<open>A plain closure neither calls an Observer nor throws: all it does is write to the
  console, and \<open>logs\<close> is what it writes. A handler set is plain when each handler it has is
  plain for every argument.\<close>

fun is_log :: "('a, 'x) stmt \<Rightarrow> bool" where
  "is_log (ConsoleLog _) = True"
| "is_log _ = False"

definition plain :: "('a, 'x) closure \<Rightarrow> bool" where
  "plain body = list_all is_log body"

fun logs :: "('a, 'x) closure \<Rightarrow> string list" where
  "logs [] = []"
| "logs (ConsoleLog s # ss) = s # logs ss"
| "logs (_ # ss) = logs ss"

definition plain_handlers :: "('a, 'x) Handler \<Rightarrow> bool" where
  "plain_handlers hs \<longleftrightarrow>
     (case h_next hs of None \<Rightarrow> True | Some f \<Rightarrow> \<forall>v. plain (f v)) \<and>
     (case h_error hs of None \<Rightarrow> True | Some f \<Rightarrow> \<forall>e. plain (f e)) \<and>
     (case h_complete hs of None \<Rightarrow> True | Some g \<Rightarrow> plain g)"

subsection \<open>What running closures never changes\<close>

text \<open>\<open>evolves w w'\<close> collects what running closures never changes: no Observer is
  allocated or removed, the trace only grows, the handlers and the registered teardown of
  every Observer stay, an Observer that is unsubscribed stays so and its handlers are
  not invoked again, and the teardown of an Observer that has none registered is not
  invoked. \<open>call_evolves call\<close>: every call the invoker makes evolves the world.
  \<open>call_extends call call'\<close>: \<open>call'\<close> gives the result of \<open>call\<close> wherever \<open>call\<close> does not
  run out of stack.\<close>

definition evolves :: "('a, 'x) world \<Rightarrow> ('a, 'x) world \<Rightarrow> bool" where
  "evolves w w' \<longleftrightarrow>
     length (heap w') = length (heap w) \<and>
     (\<exists>tr. trace w' = trace w @ tr) \<and>
     (\<forall>r < length (heap w).
        handlers (heap w' ! r) = handlers (heap w ! r) \<and>
        unsubscribe_cb (heap w' ! r) = unsubscribe_cb (heap w ! r) \<and>
        (isUnsubscribed (heap w ! r) \<longrightarrow>
           isUnsubscribed (heap w' ! r) \<and>
           handler_calls r (trace w') = handler_calls r (trace w)) \<and>
        (unsubscribe_cb (heap w ! r) = None \<longrightarrow>
           teardown_calls r (trace w') = teardown_calls r (trace w)))"

definition call_evolves :: "('a, 'x) invoker \<Rightarrow> bool" where
  "call_evolves call \<longleftrightarrow> (\<forall>body w w'. result_world (call body w) = Some w' \<longrightarrow> evolves w w')"

definition call_extends :: "('a, 'x) invoker \<Rightarrow> ('a, 'x) invoker \<Rightarrow> bool" where
  "call_extends call call' \<longleftrightarrow> (\<forall>b w. call b w \<noteq> StackOverflow \<longrightarrow> call' b w = call b w)"

subsection \<open>Closures that leave an Observer alone\<close>

text \<open>\<open>avoids b body\<close>: no statement of the body calls a method of the Observer \<open>b\<close>.
  \<open>isolated b w\<close>: no closure held by another Observer of the heap does.
  \<open>frame b w w'\<close>: the Observer \<open>b\<close> and the events of \<open>b\<close> are the same in both worlds.\<close>

fun target :: "('a, 'x) stmt \<Rightarrow> ref option" where
  "target (CallNext r _) = Some r"
| "target (CallError r _) = Some r"
| "target (CallComplete r) = Some r"
| "target (CallUnsubscribe r) = Some r"
| "target (ConsoleLog _) = None"
| "target (Throw _) = None"

definition avoids :: "ref \<Rightarrow> ('a, 'x) closure \<Rightarrow> bool" where
  "avoids b body = list_all (\<lambda>s. target s \<noteq> Some b) body"

definition observer_avoids :: "ref \<Rightarrow> ('a, 'x) Observer \<Rightarrow> bool" where
  "observer_avoids b ob \<longleftrightarrow>
     (case h_next (handlers ob) of None \<Rightarrow> True | Some f \<Rightarrow> \<forall>v. avoids b (f v)) \<and>
     (case h_error (handlers ob) of None \<Rightarrow> True | Some f \<Rightarrow> \<forall>e. avoids b (f e)) \<and>
     (case h_complete (handlers ob) of None \<Rightarrow> True | Some g \<Rightarrow> avoids b g) \<and>
     (case unsubscribe_cb ob of None \<Rightarrow> True | Some td \<Rightarrow> avoids b td)"

definition isolated :: "ref \<Rightarrow> ('a, 'x) world \<Rightarrow> bool" where
  "isolated b w \<longleftrightarrow> (\<forall>r < length (heap w). r \<noteq> b \<longrightarrow> observer_avoids b (heap w ! r))"

definition frame :: "ref \<Rightarrow> ('a, 'x) world \<Rightarrow> ('a, 'x) world \<Rightarrow> bool" where
  "frame b w w' \<longleftrightarrow> heap w' ! b = heap w ! b \<and> events_of b (trace w') = events_of b (trace w)"

definition call_frames :: "ref \<Rightarrow> ('a, 'x) invoker \<Rightarrow> bool" where
  "call_frames b call \<longleftrightarrow>
     (\<forall>body w w'. isolated b w \<longrightarrow> avoids b body \<longrightarrow> result_world (call body w) = Some w'
        \<longrightarrow> frame b w w')"

subsection \<open>Closures that never call error\<close>

text \<open>\<open>error_free body\<close>: no statement of the body calls the \<^verbatim>\<open>error\<close> method of an Observer.
  \<open>world_error_free w\<close>: no closure held by an Observer of the heap does.\<close>

fun is_error_call :: "('a, 'x) stmt \<Rightarrow> bool" where
  "is_error_call (CallError _ _) = True"
| "is_error_call _ = False"

fun is_error_event :: "('a, 'x) event \<Rightarrow> bool" where
  "is_error_event (ErrorCalled _ _) = True"
| "is_error_event _ = False"

definition error_free :: "('a, 'x) closure \<Rightarrow> bool" where
  "error_free body = list_all (\<lambda>s. \<not> is_error_call s) body"

definition observer_error_free :: "('a, 'x) Observer \<Rightarrow> bool" where
  "observer_error_free ob \<longleftrightarrow>
     (case h_next (handlers ob) of None \<Rightarrow> True | Some f \<Rightarrow> \<forall>v. error_free (f v)) \<and>
     (case h_error (handlers ob) of None \<Rightarrow> True | Some f \<Rightarrow> \<forall>e. error_free (f e)) \<and>
     (case h_complete (handlers ob) of None \<Rightarrow> True | Some g \<Rightarrow> error_free g) \<and>
     (case unsubscribe_cb ob of None \<Rightarrow> True | Some td \<Rightarrow> error_free td)"

definition world_error_free :: "('a, 'x) world \<Rightarrow> bool" where
  "world_error_free w \<longleftrightarrow> (\<forall>r < length (heap w). observer_error_free (heap w ! r))"

definition error_events :: "('a, 'x) event list \<Rightarrow> ('a, 'x) event list" where
  "error_events tr = filter is_error_event tr"

definition call_error_free :: "('a, 'x) invoker \<Rightarrow> bool" where
  "call_error_free call \<longleftrightarrow>
     (\<forall>body w w'. world_error_free w \<longrightarrow> error_free body \<longrightarrow>
        result_world (call body w) = Some w' \<longrightarrow> error_events (trace w') = error_events (trace w))"

subsection \<open>Example data\<close>

text \<open>Handlers and producers in the manner of the demonstration at the end of
  \<^verbatim>\<open>index.ts\<close>, and the worlds they lead to.\<close>

definition demo_handlers :: "(nat, string) Handler" where
  "demo_handlers =
     \<lparr>h_next = Some (\<lambda>v. [ConsoleLog ''next'']),
      h_error = Some (\<lambda>e. [ConsoleLog e]),
      h_complete = Some [ConsoleLog ''complete'']\<rparr>"

definition demo_active :: "(nat, string) world" where
  "demo_active =
     \<lparr>heap = [\<lparr>handlers = demo_handlers, isUnsubscribed = False,
                unsubscribe_cb = Some [ConsoleLog ''unsubscribed'']\<rparr>],
      trace = [NextCalled 0 1], console = [''next'']\<rparr>"

definition demo_unsubscribed :: "(nat, string) world" where
  "demo_unsubscribed =
     \<lparr>heap = [\<lparr>handlers = demo_handlers, isUnsubscribed = True,
                unsubscribe_cb = Some [ConsoleLog ''unsubscribed'']\<rparr>],
      trace = [NextCalled 0 1, TeardownCalled 0], console = [''next'', ''unsubscribed'']\<rparr>"

definition demo_failed :: "(nat, string) world" where
  "demo_failed =
     \<lparr>heap = [\<lparr>handlers = demo_handlers, isUnsubscribed = True,
                unsubscribe_cb = Some [ConsoleLog ''unsubscribed'']\<rparr>],
      trace = [NextCalled 0 1, ErrorCalled 0 ''boom'', TeardownCalled 0],
      console = [''next'', ''boom'', ''unsubscribed'']\<rparr>"

definition demo_unsubscribed_twice :: "(nat, string) world" where
  "demo_unsubscribed_twice =
     \<lparr>heap = [\<lparr>handlers = demo_handlers, isUnsubscribed = True,
                unsubscribe_cb = Some [ConsoleLog ''unsubscribed'']\<rparr>],
      trace = [NextCalled 0 1, TeardownCalled 0, TeardownCalled 0],
      console = [''next'', ''unsubscribed'', ''unsubscribed'']\<rparr>"

definition demo_completed_unsubscribed_twice :: "(nat, string) world" where
  "demo_completed_unsubscribed_twice =
     \<lparr>heap = [\<lparr>handlers = demo_handlers, isUnsubscribed = True,
                unsubscribe_cb = Some [ConsoleLog ''unsubscribed'']\<rparr>],
      trace = [NextCalled 0 1, CompleteCalled 0, TeardownCalled 0, TeardownCalled 0,
               TeardownCalled 0],
      console = [''next'', ''complete'', ''unsubscribed'', ''unsubscribed'', ''unsubscribed'']\<rparr>"

definition demo_empty :: "(nat, string) world" where
  "demo_empty = \<lparr>heap = [], trace = [], console = []\<rparr>"

definition demo_done :: "(nat, string) world" where
  "demo_done =
     \<lparr>heap = [\<lparr>handlers = demo_handlers, isUnsubscribed = True,
                unsubscribe_cb = Some [ConsoleLog ''unsubscribed'']\<rparr>],
      trace = [NextCalled 0 10, NextCalled 0 20, CompleteCalled 0],
      console = [''next'', ''next'', ''complete'']\<rparr>"

definition demo_done_unsubscribed :: "(nat, string) world" where
  "demo_done_unsubscribed =
     \<lparr>heap = [\<lparr>handlers = demo_handlers, isUnsubscribed = True,
                unsubscribe_cb = Some [ConsoleLog ''unsubscribed'']\<rparr>],
      trace = [NextCalled 0 10, NextCalled 0 20, CompleteCalled 0, TeardownCalled 0],
      console = [''next'', ''next'', ''complete'', ''unsubscribed'']\<rparr>"

definition no_handlers :: "(nat, string) Handler" where
  "no_handlers = \<lparr>h_next = None, h_error = None, h_complete = None\<rparr>"

definition demo_next_only :: "(nat, string) Handler" where
  "demo_next_only = \<lparr>h_next = Some (\<lambda>v. [ConsoleLog ''next'']), h_error = None, h_complete = None\<rparr>"

definition demo_bare :: "(nat, string) world" where
  "demo_bare =
     \<lparr>heap = [\<lparr>handlers = no_handlers, isUnsubscribed = False, unsubscribe_cb = None\<rparr>,
              \<lparr>handlers = no_handlers, isUnsubscribed = False,
               unsubscribe_cb = Some [ConsoleLog ''released'']\<rparr>],
      trace = [], console = []\<rparr>"

definition demo_reentrant :: "(nat, string) world" where
  "demo_reentrant =
     \<lparr>heap = [\<lparr>handlers = \<lparr>h_next = Some (\<lambda>v. [ConsoleLog ''next'']),
                            h_error = Some (\<lambda>e. [CallNext 0 99]),
                            h_complete = Some [CallNext 0 99]\<rparr>,
               isUnsubscribed = False, unsubscribe_cb = None\<rparr>],
      trace = [], console = []\<rparr>"

definition demo_throwing :: "(nat, string) Observable" where
  "demo_throwing = \<lparr>subscribe_fn = (\<lambda>observer.
     ([CallNext observer 1, Throw ''broken'', CallNext observer 2], [ConsoleLog ''released'']))\<rparr>"

definition demo_emitted :: "(nat, string) world" where
  "demo_emitted =
     \<lparr>heap = [\<lparr>handlers = demo_handlers, isUnsubscribed = False, unsubscribe_cb = None\<rparr>],
      trace = [NextCalled 0 1], console = [''next'']\<rparr>"

definition demo_throwing_at_once :: "(nat, string) Observable" where
  "demo_throwing_at_once = \<lparr>subscribe_fn = (\<lambda>observer.
     ([Throw ''broken'', CallNext observer 2], [ConsoleLog ''released'']))\<rparr>"

definition demo_erroring :: "(nat, string) Observable" where
  "demo_erroring = \<lparr>subscribe_fn = (\<lambda>observer.
     ([CallError observer ''broken''], [ConsoleLog ''released'']))\<rparr>"

definition demo_ticker :: "(nat, string) Observable" where
  "demo_ticker = \<lparr>subscribe_fn = (\<lambda>observer.
     ([CallNext observer 1], [ConsoleLog ''unsubscribed'']))\<rparr>"

definition demo_two :: "(nat, string) world" where
  "demo_two =
     \<lparr>heap = [\<lparr>handlers = demo_handlers, isUnsubscribed = False,
                unsubscribe_cb = Some [ConsoleLog ''unsubscribed'']\<rparr>,
              \<lparr>handlers = demo_handlers, isUnsubscribed = False,
                unsubscribe_cb = Some [ConsoleLog ''unsubscribed'']\<rparr>],
      trace = [NextCalled 0 1, NextCalled 1 1], console = [''next'', ''next'']\<rparr>"

definition demo_two_first_unsubscribed :: "(nat, string) world" where
  "demo_two_first_unsubscribed =
     \<lparr>heap = [\<lparr>handlers = demo_handlers, isUnsubscribed = True,
                unsubscribe_cb = Some [ConsoleLog ''unsubscribed'']\<rparr>,
              \<lparr>handlers = demo_handlers, isUnsubscribed = False,
                unsubscribe_cb = Some [ConsoleLog ''unsubscribed'']\<rparr>],
      trace = [NextCalled 0 1, NextCalled 1 1, TeardownCalled 0],
      console = [''next'', ''next'', ''unsubscribed'']\<rparr>"

definition demo_two_second_failed :: "(nat, string) world" where
  "demo_two_second_failed =
     \<lparr>heap = [\<lparr>handlers = demo_handlers, isUnsubscribed = False,
                unsubscribe_cb = Some [ConsoleLog ''unsubscribed'']\<rparr>,
              \<lparr>handlers = demo_handlers, isUnsubscribed = True,
                unsubscribe_cb = Some [ConsoleLog ''unsubscribed'']\<rparr>],
      trace = [NextCalled 0 1, NextCalled 1 1, ErrorCalled 1 ''boom'', TeardownCalled 1],
      console = [''next'', ''next'', ''boom'', ''unsubscribed'']\<rparr>"

definition demo_teardown_throws :: "(nat, string) world" where
  "demo_teardown_throws =
     \<lparr>heap = [\<lparr>handlers = demo_handlers, isUnsubscribed = False,
                unsubscribe_cb = Some [Throw ''teardown failed'']\<rparr>],
      trace = [], console = []\<rparr>"

definition demo_teardown_thrown :: "(nat, string) world" where
  "demo_teardown_thrown =
     \<lparr>heap = [\<lparr>handlers = demo_handlers, isUnsubscribed = True,
                unsubscribe_cb = Some [Throw ''teardown failed'']\<rparr>],
      trace = [CompleteCalled 0, TeardownCalled 0], console = [''complete'']\<rparr>"

definition demo_handler_throws :: "(nat, string) world" where
  "demo_handler_throws =
     \<lparr>heap = [\<lparr>handlers = \<lparr>h_next = Some (\<lambda>v. [ConsoleLog ''next'']),
                            h_error = Some (\<lambda>e. [Throw ''handler failed'']),
                            h_complete = Some [ConsoleLog ''complete'']\<rparr>,
               isUnsubscribed = False, unsubscribe_cb = Some [ConsoleLog ''unsubscribed'']\<rparr>],
      trace = [], console = []\<rparr>"

definition demo_handler_thrown :: "(nat, string) world" where
  "demo_handler_thrown =
     \<lparr>heap = [\<lparr>handlers = \<lparr>h_next = Some (\<lambda>v. [ConsoleLog ''next'']),
                            h_error = Some (\<lambda>e. [Throw ''handler failed'']),
                            h_complete = Some [ConsoleLog ''complete'']\<rparr>,
               isUnsubscribed = False, unsubscribe_cb = Some [ConsoleLog ''unsubscribed'']\<rparr>],
      trace = [ErrorCalled 0 ''boom''], console = []\<rparr>"

definition demo_handler_thrown_next :: "(nat, string) world" where
  "demo_handler_thrown_next =
     \<lparr>heap = [\<lparr>handlers = \<lparr>h_next = Some (\<lambda>v. [ConsoleLog ''next'']),
                            h_error = Some (\<lambda>e. [Throw ''handler failed'']),
                            h_complete = Some [ConsoleLog ''complete'']\<rparr>,
               isUnsubscribed = False, unsubscribe_cb = Some [ConsoleLog ''unsubscribed'']\<rparr>],
      trace = [ErrorCalled 0 ''boom'', NextCalled 0 7], console = [''next'']\<rparr>"

definition demo_handler_thrown_again :: "(nat, string) world" where
  "demo_handler_thrown_again =
     \<lparr>heap = [\<lparr>handlers = \<lparr>h_next = Some (\<lambda>v. [ConsoleLog ''next'']),
                            h_error = Some (\<lambda>e. [Throw ''handler failed'']),
                            h_complete = Some [ConsoleLog ''complete'']\<rparr>,
               isUnsubscribed = False, unsubscribe_cb = Some [ConsoleLog ''unsubscribed'']\<rparr>],
      trace = [ErrorCalled 0 ''boom'', NextCalled 0 7, ErrorCalled 0 ''again''],
      console = [''next'']\<rparr>"

lemmas core_defs = Observer_next_def Observer_error_def Observer_complete_def Observer_unsubscribe_def
  record_event_def set_isUnsubscribed_def set_unsubscribe_cb_def handler_calls_def teardown_calls_def

section \<open>What running closures preserves\<close>

lemma evolves_refl: "evolves w w"
  by (simp add: evolves_def)

lemma evolves_trans: "evolves w1 w2 \<Longrightarrow> evolves w2 w3 \<Longrightarrow> evolves w1 w3"
  unfolding evolves_def by (auto)

lemma evolves_console: "evolves w (w\<lparr>console := c\<rparr>)"
  by (simp add: evolves_def)

lemma evolves_set_isUnsubscribed: "evolves w (set_isUnsubscribed this w)"
  by (cases "this < length (heap w)") (auto simp: evolves_def set_isUnsubscribed_def nth_list_update)

lemma evolves_next:
  "this < length (heap w) \<Longrightarrow> \<not> isUnsubscribed (heap w ! this) \<Longrightarrow>
   evolves w (record_event (NextCalled this v) w)"
  by (auto simp: evolves_def record_event_def handler_calls_def teardown_calls_def)

lemma evolves_error:
  "this < length (heap w) \<Longrightarrow> \<not> isUnsubscribed (heap w ! this) \<Longrightarrow>
   evolves w (record_event (ErrorCalled this e) w)"
  by (auto simp: evolves_def record_event_def handler_calls_def teardown_calls_def)

lemma evolves_complete:
  "this < length (heap w) \<Longrightarrow> \<not> isUnsubscribed (heap w ! this) \<Longrightarrow>
   evolves w (record_event (CompleteCalled this) w)"
  by (auto simp: evolves_def record_event_def handler_calls_def teardown_calls_def)

lemma evolves_teardown:
  "this < length (heap w) \<Longrightarrow> unsubscribe_cb (heap w ! this) = Some td \<Longrightarrow>
   evolves w (record_event (TeardownCalled this) w)"
  by (auto simp: evolves_def record_event_def handler_calls_def teardown_calls_def)

lemma evolves_length: "evolves w w' \<Longrightarrow> length (heap w') = length (heap w)"
  by (simp add: evolves_def)

lemma evolves_handlers:
  "evolves w w' \<Longrightarrow> r < length (heap w) \<Longrightarrow> handlers (heap w' ! r) = handlers (heap w ! r)"
  by (simp add: evolves_def)

lemma evolves_inert:
  assumes "evolves w w'" and "this < length (heap w)" and "isUnsubscribed (heap w ! this)"
  shows "this < length (heap w')" and "isUnsubscribed (heap w' ! this)"
    and "handler_calls this (trace w') = handler_calls this (trace w)"
  using assms by (auto simp: evolves_def)

lemma call_evolvesD: "call_evolves call \<Longrightarrow> result_world (call body w) = Some w' \<Longrightarrow> evolves w w'"
  by (auto simp: call_evolves_def)

lemma Observer_unsubscribe_evolves:
  assumes "call_evolves call" and "result_world (Observer_unsubscribe call this w) = Some w'"
  shows "evolves w w'"
proof (cases "this < length (heap w)")
  case False
  with assms(2) show ?thesis by (simp add: Observer_unsubscribe_def evolves_refl)
next
  case True
  let ?w1 = "set_isUnsubscribed this w"
  have e1: "evolves w ?w1" by (rule evolves_set_isUnsubscribed)
  have len: "this < length (heap ?w1)" using True by (simp add: set_isUnsubscribed_def)
  show ?thesis
  proof (cases "unsubscribe_cb (heap ?w1 ! this)")
    case None
    with assms(2) True have "w' = ?w1" by (simp add: Observer_unsubscribe_def)
    with e1 show ?thesis by simp
  next
    case (Some td)
    with assms(2) True
    have "result_world (call td (record_event (TeardownCalled this) ?w1)) = Some w'"
      by (simp add: Observer_unsubscribe_def)
    from call_evolvesD [OF assms(1) this] have "evolves (record_event (TeardownCalled this) ?w1) w'" .
    with evolves_teardown [OF len Some] e1 show ?thesis by (blast intro: evolves_trans)
  qed
qed

lemma Observer_next_evolves:
  assumes "call_evolves call" and "result_world (Observer_next call this v w) = Some w'"
  shows "evolves w w'"
  using assms(2)
  by (auto simp: Observer_next_def evolves_refl split: if_splits option.splits
      intro: evolves_trans [OF evolves_next call_evolvesD [OF assms(1)]])

lemma terminal_evolves:
  assumes c: "call_evolves call" and e: "evolves w wa"
    and r: "result_world (case call b wa of
                Return _ w' \<Rightarrow> Observer_unsubscribe call this w'
              | Thrown x w' \<Rightarrow> Thrown x w'
              | StackOverflow \<Rightarrow> StackOverflow) = Some w''"
  shows "evolves w w''"
proof (cases "call b wa")
  case (Return u w1)
  then have "evolves wa w1" using call_evolvesD [OF c, of b wa w1] by simp
  moreover from r Return have "evolves w1 w''"
    by (auto intro: Observer_unsubscribe_evolves [OF c])
  ultimately show ?thesis using e by (blast intro: evolves_trans)
next
  case (Thrown x w1)
  then have "evolves wa w1" using call_evolvesD [OF c, of b wa w1] by simp
  moreover from r Thrown have "w'' = w1" by simp
  ultimately show ?thesis using e by (blast intro: evolves_trans)
next
  case StackOverflow
  with r show ?thesis by simp
qed

lemma Observer_error_evolves:
  assumes c: "call_evolves call" and r: "result_world (Observer_error call this e w) = Some w'"
  shows "evolves w w'"
proof (cases "this < length (heap w) \<and> \<not> isUnsubscribed (heap w ! this)")
  case False
  with r show ?thesis by (auto simp: Observer_error_def evolves_refl split: if_splits)
next
  case True
  show ?thesis
  proof (cases "h_error (handlers (heap w ! this))")
    case None
    with r True show ?thesis
      by (auto simp: Observer_error_def intro: Observer_unsubscribe_evolves [OF c])
  next
    case (Some f)
    from True have "evolves w (record_event (ErrorCalled this e) w)"
      by (simp add: evolves_error)
    moreover from r True Some
    have "result_world (case call (f e) (record_event (ErrorCalled this e) w) of
                Return _ w' \<Rightarrow> Observer_unsubscribe call this w'
              | Thrown x w' \<Rightarrow> Thrown x w'
              | StackOverflow \<Rightarrow> StackOverflow) = Some w'"
      by (simp add: Observer_error_def)
    ultimately show ?thesis by (rule terminal_evolves [OF c])
  qed
qed

lemma Observer_complete_evolves:
  assumes c: "call_evolves call" and r: "result_world (Observer_complete call this w) = Some w'"
  shows "evolves w w'"
proof (cases "this < length (heap w) \<and> \<not> isUnsubscribed (heap w ! this)")
  case False
  with r show ?thesis by (auto simp: Observer_complete_def evolves_refl split: if_splits)
next
  case True
  show ?thesis
  proof (cases "h_complete (handlers (heap w ! this))")
    case None
    with r True show ?thesis
      by (auto simp: Observer_complete_def intro: Observer_unsubscribe_evolves [OF c])
  next
    case (Some f)
    from True have "evolves w (record_event (CompleteCalled this) w)"
      by (simp add: evolves_complete)
    moreover from r True Some
    have "result_world (case call f (record_event (CompleteCalled this) w) of
                Return _ w' \<Rightarrow> Observer_unsubscribe call this w'
              | Thrown x w' \<Rightarrow> Thrown x w'
              | StackOverflow \<Rightarrow> StackOverflow) = Some w'"
      by (simp add: Observer_complete_def)
    ultimately show ?thesis by (rule terminal_evolves [OF c])
  qed
qed

lemma step_evolves:
  assumes c: "call_evolves call" and r: "result_world (step call s w) = Some w'"
  shows "evolves w w'"
  using r
  by (cases s)
     (auto intro: Observer_next_evolves [OF c] Observer_error_evolves [OF c]
        Observer_complete_evolves [OF c] Observer_unsubscribe_evolves [OF c]
        evolves_console evolves_refl)

lemma exec_evolves:
  assumes c: "call_evolves call"
  shows "result_world (exec call body w) = Some w' \<Longrightarrow> evolves w w'"
proof (induction body arbitrary: w)
  case Nil
  then show ?case by (simp add: evolves_refl)
next
  case (Cons s ss)
  show ?case
  proof (cases "step call s w")
    case (Return u w1)
    then have "evolves w w1" using step_evolves [OF c, of s w w1] by simp
    moreover from Cons.prems Return have "evolves w1 w'" by (auto intro: Cons.IH)
    ultimately show ?thesis by (rule evolves_trans)
  next
    case (Thrown x w1)
    then have "evolves w w1" using step_evolves [OF c, of s w w1] by simp
    with Cons.prems Thrown show ?thesis by simp
  next
    case StackOverflow
    with Cons.prems show ?thesis by simp
  qed
qed

lemma run_call_evolves: "call_evolves (run n)"
proof (induction n)
  case 0
  show ?case by (simp add: call_evolves_def)
next
  case (Suc n)
  then show ?case unfolding call_evolves_def [of "run (Suc n)"]
    by (auto intro: exec_evolves)
qed

lemma run_evolves: "result_world (run n body w) = Some w' \<Longrightarrow> evolves w w'"
  using run_call_evolves by (rule call_evolvesD)

section \<open>The call stack only matters when it overflows\<close>

lemma call_extendsD:
  "call_extends call call' \<Longrightarrow> call b w \<noteq> StackOverflow \<Longrightarrow> call' b w = call b w"
  by (simp add: call_extends_def)

lemma Observer_unsubscribe_extends:
  assumes "call_extends call call'" and "Observer_unsubscribe call this w \<noteq> StackOverflow"
  shows "Observer_unsubscribe call' this w = Observer_unsubscribe call this w"
  using assms(2) call_extendsD [OF assms(1)]
  by (auto simp: Observer_unsubscribe_def Let_def split: option.splits)

lemma Observer_next_extends:
  assumes "call_extends call call'" and "Observer_next call this v w \<noteq> StackOverflow"
  shows "Observer_next call' this v w = Observer_next call this v w"
  using assms(2) call_extendsD [OF assms(1)]
  by (auto simp: Observer_next_def split: option.splits)

lemma terminal_extends:
  assumes c: "call_extends call call'"
    and r: "(case call b wa of Return _ w' \<Rightarrow> Observer_unsubscribe call this w'
             | Thrown x w' \<Rightarrow> Thrown x w' | StackOverflow \<Rightarrow> StackOverflow) \<noteq> StackOverflow"
  shows "(case call' b wa of Return _ w' \<Rightarrow> Observer_unsubscribe call' this w'
             | Thrown x w' \<Rightarrow> Thrown x w' | StackOverflow \<Rightarrow> StackOverflow) =
         (case call b wa of Return _ w' \<Rightarrow> Observer_unsubscribe call this w'
             | Thrown x w' \<Rightarrow> Thrown x w' | StackOverflow \<Rightarrow> StackOverflow)"
proof (cases "call b wa")
  case (Return u w1)
  then have "call' b wa = Return u w1" using call_extendsD [OF c, of b wa] by simp
  moreover from r Return have "Observer_unsubscribe call' this w1 = Observer_unsubscribe call this w1"
    by (intro Observer_unsubscribe_extends [OF c]) simp
  ultimately show ?thesis using Return by simp
next
  case (Thrown x w1)
  then have "call' b wa = Thrown x w1" using call_extendsD [OF c, of b wa] by simp
  with Thrown show ?thesis by simp
next
  case StackOverflow
  with r show ?thesis by simp
qed

lemma Observer_error_extends:
  assumes c: "call_extends call call'" and r: "Observer_error call this e w \<noteq> StackOverflow"
  shows "Observer_error call' this e w = Observer_error call this e w"
proof (cases "this < length (heap w) \<and> \<not> isUnsubscribed (heap w ! this)")
  case False
  then show ?thesis by (auto simp: Observer_error_def)
next
  case True
  show ?thesis
  proof (cases "h_error (handlers (heap w ! this))")
    case None
    with True r show ?thesis
      by (simp add: Observer_error_def Observer_unsubscribe_extends [OF c])
  next
    case (Some f)
    with True r show ?thesis
      by (simp add: Observer_error_def terminal_extends [OF c])
  qed
qed

lemma Observer_complete_extends:
  assumes c: "call_extends call call'" and r: "Observer_complete call this w \<noteq> StackOverflow"
  shows "Observer_complete call' this w = Observer_complete call this w"
proof (cases "this < length (heap w) \<and> \<not> isUnsubscribed (heap w ! this)")
  case False
  then show ?thesis by (auto simp: Observer_complete_def)
next
  case True
  show ?thesis
  proof (cases "h_complete (handlers (heap w ! this))")
    case None
    with True r show ?thesis
      by (simp add: Observer_complete_def Observer_unsubscribe_extends [OF c])
  next
    case (Some g)
    with True r show ?thesis
      by (simp add: Observer_complete_def terminal_extends [OF c])
  qed
qed

lemma step_extends:
  assumes "call_extends call call'" and "step call s w \<noteq> StackOverflow"
  shows "step call' s w = step call s w"
  using assms(2)
  by (cases s)
     (simp_all add: Observer_next_extends [OF assms(1)] Observer_error_extends [OF assms(1)]
        Observer_complete_extends [OF assms(1)] Observer_unsubscribe_extends [OF assms(1)])

lemma exec_extends:
  assumes c: "call_extends call call'"
  shows "exec call body w \<noteq> StackOverflow \<Longrightarrow> exec call' body w = exec call body w"
proof (induction body arbitrary: w)
  case Nil
  show ?case by simp
next
  case (Cons s ss)
  then have "step call s w \<noteq> StackOverflow" by (auto split: result.splits)
  then have "step call' s w = step call s w" by (rule step_extends [OF c])
  with Cons show ?case by (auto split: result.splits)
qed

lemma run_Suc_extends: "call_extends (run n) (run (Suc n))"
proof (induction n)
  case 0
  show ?case by (simp add: call_extends_def)
next
  case (Suc n)
  show ?case unfolding call_extends_def [of "run (Suc n)"]
    by (metis run.simps(2) exec_extends [OF Suc])
qed

text \<open>A deeper call stack changes nothing but the overflow.\<close>

lemma run_deeper:
  "run n body w \<noteq> StackOverflow \<Longrightarrow> run (n + k) body w = run n body w"
proof (induction k)
  case 0
  show ?case by simp
next
  case (Suc k)
  then have "run (n + k) body w \<noteq> StackOverflow" by simp
  from call_extendsD [OF run_Suc_extends this] Suc show ?case by (simp del: run.simps)
qed

section \<open>The methods on plain closures and on missing ones\<close>

lemma exec_plain:
  "plain body \<Longrightarrow> exec call body w = Return () (w\<lparr>console := console w @ logs body\<rparr>)"
proof (induction body arbitrary: w)
  case Nil
  then show ?case by simp
next
  case (Cons s ss)
  then obtain m where "s = ConsoleLog m" by (cases s) (auto simp: plain_def)
  with Cons show ?case by (simp add: plain_def)
qed

lemma run_plain:
  "plain body \<Longrightarrow> run (Suc n) body w = Return () (w\<lparr>console := console w @ logs body\<rparr>)"
  by (simp add: exec_plain)

lemma set_isUnsubscribed_simps:
  "length (heap (set_isUnsubscribed this w)) = length (heap w)"
  "trace (set_isUnsubscribed this w) = trace w"
  "console (set_isUnsubscribed this w) = console w"
  "this < length (heap w) \<Longrightarrow> isUnsubscribed (heap (set_isUnsubscribed this w) ! this)"
  "this < length (heap w) \<Longrightarrow>
     unsubscribe_cb (heap (set_isUnsubscribed this w) ! this) = unsubscribe_cb (heap w ! this)"
  "this < length (heap w) \<Longrightarrow>
     handlers (heap (set_isUnsubscribed this w) ! this) = handlers (heap w ! this)"
  by (simp_all add: set_isUnsubscribed_def)

lemma set_unsubscribe_cb_simps:
  "length (heap (set_unsubscribe_cb this td w)) = length (heap w)"
  "trace (set_unsubscribe_cb this td w) = trace w"
  "console (set_unsubscribe_cb this td w) = console w"
  "this < length (heap w) \<Longrightarrow> unsubscribe_cb (heap (set_unsubscribe_cb this td w) ! this) = Some td"
  "this < length (heap w) \<Longrightarrow>
     isUnsubscribed (heap (set_unsubscribe_cb this td w) ! this) = isUnsubscribed (heap w ! this)"
  "this < length (heap w) \<Longrightarrow>
     handlers (heap (set_unsubscribe_cb this td w) ! this) = handlers (heap w ! this)"
  "r \<noteq> this \<Longrightarrow> heap (set_unsubscribe_cb this td w) ! r = heap w ! r"
  by (simp_all add: set_unsubscribe_cb_def)

lemma inert_no_op:
  assumes "this < length (heap w)" and "isUnsubscribed (heap w ! this)"
  shows "Observer_next call this v w = Return () w"
    and "Observer_error call this e w = Return () w"
    and "Observer_complete call this w = Return () w"
  using assms
  by (simp_all add: Observer_next_def Observer_error_def Observer_complete_def split: option.splits)

lemma Observer_unsubscribe_sets:
  assumes "this < length (heap w)"
    and "result_world (Observer_unsubscribe (run n) this w) = Some w'"
  shows "this < length (heap w')" and "isUnsubscribed (heap w' ! this)"
    and "handler_calls this (trace w') = handler_calls this (trace w)"
proof -
  let ?wa = "set_isUnsubscribed this w"
  have a: "this < length (heap ?wa)" "isUnsubscribed (heap ?wa ! this)" "trace ?wa = trace w"
    using assms(1) by (simp_all add: set_isUnsubscribed_def)
  have "evolves ?wa w'"
  proof (cases "unsubscribe_cb (heap ?wa ! this)")
    case None
    with assms show ?thesis by (simp add: Observer_unsubscribe_def evolves_refl)
  next
    case (Some td)
    with assms have "result_world (run n td (record_event (TeardownCalled this) ?wa)) = Some w'"
      by (simp add: Observer_unsubscribe_def)
    then have "evolves (record_event (TeardownCalled this) ?wa) w'" by (rule run_evolves)
    with evolves_teardown [OF a(1) Some] show ?thesis by (blast intro: evolves_trans)
  qed
  from evolves_inert [OF this a(1,2)] a(3)
  show "this < length (heap w')" and "isUnsubscribed (heap w' ! this)"
    and "handler_calls this (trace w') = handler_calls this (trace w)"
    by simp_all
qed

lemma returned_Return: "returned r \<Longrightarrow> \<exists>u w. r = Return u w"
  by (cases r) simp_all

lemma terminal_sets_flag:
  assumes l: "this < length (heap w)"
    and s: "s = CallError this e \<or> s = CallComplete this"
    and r: "result_world (step (run n) s w) = Some w1"
    and h: "handler_returned (run n) s w"
  shows "this < length (heap w1) \<and> isUnsubscribed (heap w1 ! this)"
proof (cases "isUnsubscribed (heap w ! this)")
  case True
  with l s r show ?thesis by (auto simp: inert_no_op)
next
  case False
  from s show ?thesis
  proof
    assume s: "s = CallError this e"
    show ?thesis
    proof (cases "h_error (handlers (heap w ! this))")
      case None
      with l r False s have "result_world (Observer_unsubscribe (run n) this w) = Some w1"
        by (simp add: Observer_error_def)
      from Observer_unsubscribe_sets [OF l this] show ?thesis by simp
    next
      case (Some f)
      let ?wa = "record_event (ErrorCalled this e) w"
      from h s False Some have "returned (run n (f e) ?wa)" by simp
      then obtain u wa where wa: "run n (f e) ?wa = Return u wa" by (blast dest: returned_Return)
      with l r False s Some
      have u: "result_world (Observer_unsubscribe (run n) this wa) = Some w1"
        by (simp add: Observer_error_def)
      from wa have "evolves ?wa wa" using run_evolves [of n "f e" ?wa wa] by simp
      then have "this < length (heap wa)" using l by (simp add: evolves_def record_event_def)
      from Observer_unsubscribe_sets [OF this u] show ?thesis by simp
    qed
  next
    assume s: "s = CallComplete this"
    show ?thesis
    proof (cases "h_complete (handlers (heap w ! this))")
      case None
      with l r False s have "result_world (Observer_unsubscribe (run n) this w) = Some w1"
        by (simp add: Observer_complete_def)
      from Observer_unsubscribe_sets [OF l this] show ?thesis by simp
    next
      case (Some g)
      let ?wa = "record_event (CompleteCalled this) w"
      from h s False Some have "returned (run n g ?wa)" by simp
      then obtain u wa where wa: "run n g ?wa = Return u wa" by (blast dest: returned_Return)
      with l r False s Some
      have u: "result_world (Observer_unsubscribe (run n) this wa) = Some w1"
        by (simp add: Observer_complete_def)
      from wa have "evolves ?wa wa" using run_evolves [of n g ?wa wa] by simp
      then have "this < length (heap wa)" using l by (simp add: evolves_def record_event_def)
      from Observer_unsubscribe_sets [OF this u] show ?thesis by simp
    qed
  qed
qed

text \<open>A terminal call that returned is one whose handler returned.\<close>

lemma Return_handler_returned:
  assumes "this < length (heap w)" and "s = CallError this e \<or> s = CallComplete this"
    and "step (run n) s w = Return () w1"
  shows "handler_returned (run n) s w"
  using assms
  by (auto simp: Observer_error_def Observer_complete_def
      split: if_splits option.splits result.splits)

lemma Observer_unsubscribe_plain:
  assumes "this < length (heap w)" and "unsubscribe_cb (heap w ! this) = Some td" and "plain td"
  shows "Observer_unsubscribe (run (Suc n)) this w =
     Return () ((set_isUnsubscribed this w)
        \<lparr>trace := trace w @ [TeardownCalled this], console := console w @ logs td\<rparr>)"
  using assms
  by (simp add: Observer_unsubscribe_def set_isUnsubscribed_simps exec_plain record_event_def)

lemma Observer_unsubscribe_no_teardown:
  assumes "this < length (heap w)" and "unsubscribe_cb (heap w ! this) = None"
  shows "Observer_unsubscribe call this w = Return () (set_isUnsubscribed this w)"
  using assms by (simp add: Observer_unsubscribe_def set_isUnsubscribed_simps)

lemma unsubscribe_repeated:
  assumes "plain td"
  shows "this < length (heap w) \<Longrightarrow> unsubscribe_cb (heap w ! this) = Some td \<Longrightarrow>
     \<exists>w'. exec (run (Suc n)) (replicate N (CallUnsubscribe this)) w = Return () w' \<and>
          trace w' = trace w @ replicate N (TeardownCalled this) \<and>
          length (heap w') = length (heap w) \<and>
          unsubscribe_cb (heap w' ! this) = Some td \<and>
          (0 < N \<longrightarrow> isUnsubscribed (heap w' ! this))"
proof (induction N arbitrary: w)
  case 0
  then show ?case by simp
next
  case (Suc N)
  let ?w1 = "(set_isUnsubscribed this w)
        \<lparr>trace := trace w @ [TeardownCalled this], console := console w @ logs td\<rparr>"
  have s: "Observer_unsubscribe (run (Suc n)) this w = Return () ?w1"
    using Suc.prems assms by (rule Observer_unsubscribe_plain)
  have l1: "this < length (heap ?w1)" and u1: "unsubscribe_cb (heap ?w1 ! this) = Some td"
    and f1: "isUnsubscribed (heap ?w1 ! this)"
    using Suc.prems by (simp_all add: set_isUnsubscribed_simps)
  from Suc.IH [OF l1 u1] obtain w' where
    w': "exec (run (Suc n)) (replicate N (CallUnsubscribe this)) ?w1 = Return () w'"
      "trace w' = trace ?w1 @ replicate N (TeardownCalled this)"
      "length (heap w') = length (heap ?w1)"
      "unsubscribe_cb (heap w' ! this) = Some td"
    by blast
  have ev: "evolves ?w1 w'" using run_evolves [of "Suc (Suc n)" "replicate N (CallUnsubscribe this)" ?w1 w'] w'(1) by simp
  have "isUnsubscribed (heap w' ! this)" using evolves_inert(2) [OF ev l1 f1] .
  with s w' show ?case
    by (simp add: set_isUnsubscribed_simps del: run.simps)
qed

lemma Observer_next_plain:
  assumes "this < length (heap w)" and "\<not> isUnsubscribed (heap w ! this)"
    and "h_next (handlers (heap w ! this)) = Some f" and "plain (f v)"
  shows "Observer_next (run (Suc n)) this v w =
     Return () (w\<lparr>trace := trace w @ [NextCalled this v], console := console w @ logs (f v)\<rparr>)"
  using assms by (simp add: Observer_next_def exec_plain record_event_def)

lemma Observer_next_missing:
  assumes "h_next (handlers (heap w ! this)) = None"
  shows "Observer_next call this v w = Return () w"
  using assms by (simp add: Observer_next_def)

lemma Observer_error_plain:
  assumes "this < length (heap w)" and "\<not> isUnsubscribed (heap w ! this)"
    and "h_error (handlers (heap w ! this)) = Some f" and "plain (f e)"
  shows "Observer_error (run (Suc n)) this e w =
     Observer_unsubscribe (run (Suc n)) this
       (w\<lparr>trace := trace w @ [ErrorCalled this e], console := console w @ logs (f e)\<rparr>)"
  using assms by (simp add: Observer_error_def exec_plain record_event_def)

lemma Observer_error_missing:
  assumes "this < length (heap w)" and "\<not> isUnsubscribed (heap w ! this)"
    and "h_error (handlers (heap w ! this)) = None"
  shows "Observer_error call this e w = Observer_unsubscribe call this w"
  using assms by (simp add: Observer_error_def)

lemma Observer_complete_plain:
  assumes "this < length (heap w)" and "\<not> isUnsubscribed (heap w ! this)"
    and "h_complete (handlers (heap w ! this)) = Some g" and "plain g"
  shows "Observer_complete (run (Suc n)) this w =
     Observer_unsubscribe (run (Suc n)) this
       (w\<lparr>trace := trace w @ [CompleteCalled this], console := console w @ logs g\<rparr>)"
  using assms by (simp add: Observer_complete_def exec_plain record_event_def)

lemma Observer_complete_missing:
  assumes "this < length (heap w)" and "\<not> isUnsubscribed (heap w ! this)"
    and "h_complete (handlers (heap w ! this)) = None"
  shows "Observer_complete call this w = Observer_unsubscribe call this w"
  using assms by (simp add: Observer_complete_def)

lemma exec_next_plain:
  assumes f: "\<And>v. plain (f v)"
  shows "this < length (heap w) \<Longrightarrow> \<not> isUnsubscribed (heap w ! this) \<Longrightarrow>
     h_next (handlers (heap w ! this)) = Some f \<Longrightarrow>
     exec (run (Suc n)) (map (\<lambda>value. CallNext this value) vs @ rest) w =
       exec (run (Suc n)) rest
         (w\<lparr>trace := trace w @ map (NextCalled this) vs,
            console := console w @ concat (map (\<lambda>v. logs (f v)) vs)\<rparr>)"
proof (induction vs arbitrary: w)
  case Nil
  then show ?case by simp
next
  case (Cons v vs)
  let ?w1 = "w\<lparr>trace := trace w @ [NextCalled this v], console := console w @ logs (f v)\<rparr>"
  have s: "Observer_next (run (Suc n)) this v w = Return () ?w1"
    using Cons.prems f by (rule Observer_next_plain)
  have "exec (run (Suc n)) (map (\<lambda>value. CallNext this value) vs @ rest) ?w1 =
       exec (run (Suc n)) rest
         (?w1\<lparr>trace := trace ?w1 @ map (NextCalled this) vs,
            console := console ?w1 @ concat (map (\<lambda>v. logs (f v)) vs)\<rparr>)"
    using Cons.prems by (intro Cons.IH) simp_all
  with s show ?case by (simp del: run.simps)
qed

lemma exec_next_missing:
  "h_next (handlers (heap w ! this)) = None \<Longrightarrow>
     exec call (map (\<lambda>value. CallNext this value) vs @ rest) w = exec call rest w"
  by (induction vs) (simp_all add: Observer_next_missing)

section \<open>Subscribing\<close>

lemma subscribe_world:
  assumes "result_world (Observable_subscribe (run n) obs hs w) = Some w'"
  shows "\<exists>w2. result_world (run n (fst (subscribe_fn obs (length (heap w))))
                  (w\<lparr>heap := heap w @ [Observer_new hs]\<rparr>)) = Some w2 \<and>
              (w' = w2 \<or> w' = set_unsubscribe_cb (length (heap w))
                                 (snd (subscribe_fn obs (length (heap w)))) w2)"
  using assms
  by (auto simp: Observable_subscribe_def Let_def split: prod.splits result.splits)

lemma subscribe_Return:
  "Observable_subscribe call obs hs w = Return sub w3 \<longleftrightarrow>
     sub = Subscription (length (heap w)) \<and>
     (\<exists>w2. call (fst (subscribe_fn obs (length (heap w)))) (w\<lparr>heap := heap w @ [Observer_new hs]\<rparr>)
             = Return () w2 \<and>
           w3 = set_unsubscribe_cb (length (heap w)) (snd (subscribe_fn obs (length (heap w)))) w2)"
  by (auto simp: Observable_subscribe_def Let_def case_prod_beta split: result.splits)

lemma subscribe_Return_facts:
  assumes "Observable_subscribe (run n) obs hs w = Return sub w3"
  shows "sub = Subscription (length (heap w))"
    and "length (heap w3) = Suc (length (heap w))"
    and "handlers (heap w3 ! length (heap w)) = hs"
    and "unsubscribe_cb (heap w3 ! length (heap w)) = Some (snd (subscribe_fn obs (length (heap w))))"
proof -
  let ?r = "length (heap w)"
  let ?w1 = "w\<lparr>heap := heap w @ [Observer_new hs]\<rparr>"
  from assms obtain w2 where s: "sub = Subscription ?r"
    and r: "run n (fst (subscribe_fn obs ?r)) ?w1 = Return () w2"
    and w3: "w3 = set_unsubscribe_cb ?r (snd (subscribe_fn obs ?r)) w2"
    unfolding subscribe_Return by blast
  from r have ev: "evolves ?w1 w2"
    using run_evolves [of n "fst (subscribe_fn obs ?r)" ?w1 w2] by simp
  have l: "length (heap w2) = Suc ?r" using evolves_length [OF ev] by simp
  have h: "handlers (heap w2 ! ?r) = hs" using evolves_handlers [OF ev, of ?r]
    by (simp add: Observer_new_def)
  show "sub = Subscription ?r" by (rule s)
  show "length (heap w3) = Suc ?r" using l w3 by (simp add: set_unsubscribe_cb_simps)
  show "handlers (heap w3 ! ?r) = hs" using l h w3 by (simp add: set_unsubscribe_cb_simps)
  show "unsubscribe_cb (heap w3 ! ?r) = Some (snd (subscribe_fn obs ?r))"
    using l w3 by (simp add: set_unsubscribe_cb_simps)
qed

lemma subscribe_preserves_flag:
  assumes "r < length (heap u)" and "isUnsubscribed (heap u ! r)"
    and "result_world (Observable_subscribe (run k) obs hs u) = Some u'"
  shows "isUnsubscribed (heap u' ! r)"
proof -
  let ?u1 = "u\<lparr>heap := heap u @ [Observer_new hs]\<rparr>"
  from subscribe_world [OF assms(3)] obtain u2 where
    r: "result_world (run k (fst (subscribe_fn obs (length (heap u)))) ?u1) = Some u2"
    and u': "u' = u2 \<or> u' = set_unsubscribe_cb (length (heap u))
                                 (snd (subscribe_fn obs (length (heap u)))) u2"
    by blast
  have "r < length (heap ?u1)" "isUnsubscribed (heap ?u1 ! r)"
    using assms(1,2) by (simp_all add: nth_append)
  from evolves_inert(2) [OF run_evolves [OF r] this] have "isUnsubscribed (heap u2 ! r)" .
  with u' assms(1) show ?thesis by (auto simp: set_unsubscribe_cb_simps)
qed

lemma from_subscribe_plain:
  assumes n: "h_next hs = Some f" and f: "\<And>v. plain (f v)"
    and c: "h_complete hs = Some g" and g: "plain g"
  shows "Observable_subscribe (run (Suc (Suc n))) (Observable_from vs) hs w =
     Return (Subscription (length (heap w)))
       (w\<lparr>heap := heap w @ [\<lparr>handlers = hs, isUnsubscribed = True,
                           unsubscribe_cb = Some [ConsoleLog ''unsubscribed'']\<rparr>],
          trace := trace w @ map (NextCalled (length (heap w))) vs @ [CompleteCalled (length (heap w))],
          console := console w @ concat (map (\<lambda>v. logs (f v)) vs) @ logs g\<rparr>)"
proof -
  let ?r = "length (heap w)"
  let ?w1 = "w\<lparr>heap := heap w @ [Observer_new hs]\<rparr>"
  let ?w2 = "?w1\<lparr>trace := trace ?w1 @ map (NextCalled ?r) vs,
            console := console ?w1 @ concat (map (\<lambda>v. logs (f v)) vs)\<rparr>"
  have a: "?r < length (heap ?w1)" "\<not> isUnsubscribed (heap ?w1 ! ?r)"
    "h_next (handlers (heap ?w1 ! ?r)) = Some f"
    using n by (simp_all add: Observer_new_def)
  have b: "?r < length (heap ?w2)" "\<not> isUnsubscribed (heap ?w2 ! ?r)"
    "h_complete (handlers (heap ?w2 ! ?r)) = Some g"
    using c by (simp_all add: Observer_new_def)
  let ?w3 = "?w2\<lparr>trace := trace ?w2 @ [CompleteCalled ?r], console := console ?w2 @ logs g\<rparr>"
  have d: "?r < length (heap ?w3)" "unsubscribe_cb (heap ?w3 ! ?r) = None"
    by (simp_all add: Observer_new_def)
  have "run (Suc (Suc n)) (map (\<lambda>value. CallNext ?r value) vs @ [CallComplete ?r]) ?w1
        = exec (run (Suc n)) [CallComplete ?r] ?w2"
    using exec_next_plain [OF f a, of n vs "[CallComplete ?r]"] by (simp del: run.simps add: run.simps(2) [of "Suc n"])
  also have "\<dots> = Return () (set_isUnsubscribed ?r ?w3)"
    using Observer_complete_plain [OF b g, of n] Observer_unsubscribe_no_teardown [OF d, of "run (Suc n)"]
    by (simp del: run.simps)
  finally show ?thesis
    by (simp add: Observable_subscribe_def Observable_from_def set_unsubscribe_cb_def
        set_isUnsubscribed_def Observer_new_def Let_def del: run.simps)
qed

lemma from_subscribe_no_handlers:
  "Observable_subscribe (run (Suc n)) (Observable_from vs)
       \<lparr>h_next = None, h_error = None, h_complete = None\<rparr> w =
     Return (Subscription (length (heap w)))
       (w\<lparr>heap := heap w @ [\<lparr>handlers = \<lparr>h_next = None, h_error = None, h_complete = None\<rparr>,
                           isUnsubscribed = True,
                           unsubscribe_cb = Some [ConsoleLog ''unsubscribed'']\<rparr>]\<rparr>)"
proof -
  let ?hs = "\<lparr>h_next = None, h_error = None, h_complete = None\<rparr> :: ('a, 'b) Handler"
  let ?r = "length (heap w)"
  let ?w1 = "w\<lparr>heap := heap w @ [Observer_new ?hs]\<rparr>"
  have a: "h_next (handlers (heap ?w1 ! ?r)) = None" "?r < length (heap ?w1)"
    "\<not> isUnsubscribed (heap ?w1 ! ?r)" "h_complete (handlers (heap ?w1 ! ?r)) = None"
    "unsubscribe_cb (heap ?w1 ! ?r) = None"
    by (simp_all add: Observer_new_def)
  have "run (Suc n) (map (\<lambda>value. CallNext ?r value) vs @ [CallComplete ?r]) ?w1
        = Return () (set_isUnsubscribed ?r ?w1)"
    using exec_next_missing [OF a(1), of "run n" vs "[CallComplete ?r]"]
      Observer_complete_missing [OF a(2,3,4), of "run n"]
      Observer_unsubscribe_no_teardown [OF a(2,5), of "run n"]
    by simp
  then show ?thesis
    by (simp add: Observable_subscribe_def Observable_from_def set_unsubscribe_cb_def
        set_isUnsubscribed_def Observer_new_def Let_def del: run.simps)
qed

lemma from_subscribe_any:
  assumes "plain_handlers hs"
  shows "\<exists>w'. Observable_subscribe (run (Suc (Suc n))) (Observable_from vs) hs w =
            Return (Subscription (length (heap w))) w' \<and>
          isUnsubscribed (heap w' ! length (heap w)) \<and>
          trace w' = trace w
            @ (case h_next hs of None \<Rightarrow> [] | Some f \<Rightarrow> map (NextCalled (length (heap w))) vs)
            @ (case h_complete hs of None \<Rightarrow> [] | Some g \<Rightarrow> [CompleteCalled (length (heap w))])"
proof -
  let ?r = "length (heap w)"
  let ?w1 = "w\<lparr>heap := heap w @ [Observer_new hs]\<rparr>"
  let ?tn = "case h_next hs of None \<Rightarrow> [] | Some f \<Rightarrow> map (NextCalled ?r) vs"
  let ?tc = "case h_complete hs of None \<Rightarrow> [] | Some g \<Rightarrow> [CompleteCalled ?r]"
  have a: "?r < length (heap ?w1)" "\<not> isUnsubscribed (heap ?w1 ! ?r)"
    "handlers (heap ?w1 ! ?r) = hs" "unsubscribe_cb (heap ?w1 ! ?r) = None"
    by (simp_all add: Observer_new_def)
  have "\<exists>w2. exec (run (Suc n)) (map (\<lambda>value. CallNext ?r value) vs @ [CallComplete ?r]) ?w1
            = exec (run (Suc n)) [CallComplete ?r] w2 \<and>
          heap w2 = heap ?w1 \<and> trace w2 = trace w @ ?tn"
  proof (cases "h_next hs")
    case None
    then show ?thesis using exec_next_missing [of ?w1 ?r "run (Suc n)" vs "[CallComplete ?r]"] a(3)
      by (intro exI [of _ ?w1]) (simp del: run.simps exec.simps)
  next
    case (Some f)
    with assms have pl: "\<And>v. plain (f v)" by (simp add: plain_handlers_def)
    have hn: "h_next (handlers (heap ?w1 ! ?r)) = Some f" using a(3) Some by simp
    let ?wn = "?w1\<lparr>trace := trace ?w1 @ map (NextCalled ?r) vs,
                    console := console ?w1 @ concat (map (\<lambda>v. logs (f v)) vs)\<rparr>"
    have "exec (run (Suc n)) (map (\<lambda>value. CallNext ?r value) vs @ [CallComplete ?r]) ?w1
            = exec (run (Suc n)) [CallComplete ?r] ?wn"
      by (rule exec_next_plain [OF pl a(1,2) hn])
    then show ?thesis using Some
      by (intro exI [of _ ?wn]) (simp del: run.simps exec.simps)
  qed
  then obtain w2 where
    w2: "exec (run (Suc n)) (map (\<lambda>value. CallNext ?r value) vs @ [CallComplete ?r]) ?w1
            = exec (run (Suc n)) [CallComplete ?r] w2"
    and h2: "heap w2 = heap ?w1" and t2: "trace w2 = trace w @ ?tn"
    by blast
  have b: "?r < length (heap w2)" "\<not> isUnsubscribed (heap w2 ! ?r)"
    "handlers (heap w2 ! ?r) = hs" "unsubscribe_cb (heap w2 ! ?r) = None"
    using a h2 by simp_all
  have "\<exists>w3. Observer_complete (run (Suc n)) ?r w2 = Return () w3 \<and>
          length (heap w3) = length (heap w2) \<and> isUnsubscribed (heap w3 ! ?r) \<and>
          trace w3 = trace w2 @ ?tc"
  proof (cases "h_complete hs")
    case None
    with b show ?thesis
      by (simp add: Observer_complete_missing Observer_unsubscribe_no_teardown
          set_isUnsubscribed_simps del: run.simps)
  next
    case (Some g)
    with assms have g: "plain g" by (simp add: plain_handlers_def)
    let ?wc = "w2\<lparr>trace := trace w2 @ [CompleteCalled ?r], console := console w2 @ logs g\<rparr>"
    have "Observer_complete (run (Suc n)) ?r w2 = Observer_unsubscribe (run (Suc n)) ?r ?wc"
      using b Some g by (intro Observer_complete_plain) simp_all
    moreover have "Observer_unsubscribe (run (Suc n)) ?r ?wc = Return () (set_isUnsubscribed ?r ?wc)"
      using b by (intro Observer_unsubscribe_no_teardown) simp_all
    ultimately show ?thesis using b Some
      by (simp add: set_isUnsubscribed_simps del: run.simps)
  qed
  then obtain w3 where w3: "Observer_complete (run (Suc n)) ?r w2 = Return () w3"
    and l3: "length (heap w3) = length (heap w2)" and f3: "isUnsubscribed (heap w3 ! ?r)"
    and t3: "trace w3 = trace w2 @ ?tc"
    by blast
  have "run (Suc (Suc n)) (fst (subscribe_fn (Observable_from vs) ?r)) ?w1 = Return () w3"
    using w2 w3 by (simp add: Observable_from_def del: run.simps add: run.simps(2) [of "Suc n"])
  then have "Observable_subscribe (run (Suc (Suc n))) (Observable_from vs) hs w =
      Return (Subscription ?r) (set_unsubscribe_cb ?r (snd (subscribe_fn (Observable_from vs) ?r)) w3)"
    by (simp add: subscribe_Return del: run.simps)
  moreover have "?r < length (heap w3)" using l3 b(1) by simp
  ultimately show ?thesis using f3 t3 t2
    by (simp add: set_unsubscribe_cb_simps del: run.simps)
qed

section \<open>Closures that avoid an Observer leave it as it is\<close>

lemma frame_refl: "frame b w w"
  by (simp add: frame_def)

lemma frame_trans: "frame b w1 w2 \<Longrightarrow> frame b w2 w3 \<Longrightarrow> frame b w1 w3"
  by (simp add: frame_def)

lemma call_framesD:
  "call_frames b call \<Longrightarrow> isolated b w \<Longrightarrow> avoids b body \<Longrightarrow>
   result_world (call body w) = Some w' \<Longrightarrow> frame b w w'"
  by (auto simp: call_frames_def)

lemma isolated_evolves: "isolated b w \<Longrightarrow> evolves w w' \<Longrightarrow> isolated b w'"
  by (auto simp: isolated_def evolves_def observer_avoids_def)

lemma frame_record_event: "event_ref e \<noteq> b \<Longrightarrow> frame b w (record_event e w)"
  by (simp add: frame_def record_event_def events_of_def)

lemma isolated_record_event: "isolated b w \<Longrightarrow> isolated b (record_event e w)"
  by (simp add: isolated_def record_event_def)

lemma frame_set_isUnsubscribed: "this \<noteq> b \<Longrightarrow> frame b w (set_isUnsubscribed this w)"
  by (simp add: frame_def set_isUnsubscribed_def)

lemma isolated_handlers:
  assumes "isolated b w" and "this < length (heap w)" and "this \<noteq> b"
  shows "h_next (handlers (heap w ! this)) = Some f \<Longrightarrow> avoids b (f v)"
    and "h_error (handlers (heap w ! this)) = Some f' \<Longrightarrow> avoids b (f' e)"
    and "h_complete (handlers (heap w ! this)) = Some g \<Longrightarrow> avoids b g"
    and "unsubscribe_cb (heap w ! this) = Some td \<Longrightarrow> avoids b td"
  using assms by (auto simp: isolated_def observer_avoids_def)

lemma Observer_unsubscribe_frame:
  assumes cf: "call_frames b call" and nb: "this \<noteq> b" and iso: "isolated b w"
    and r: "result_world (Observer_unsubscribe call this w) = Some w'"
  shows "frame b w w'"
proof (cases "this < length (heap w)")
  case False
  with r show ?thesis by (simp add: Observer_unsubscribe_def frame_refl)
next
  case True
  let ?wa = "set_isUnsubscribed this w"
  have fa: "frame b w ?wa" using nb by (rule frame_set_isUnsubscribed)
  have ia: "isolated b ?wa" using iso evolves_set_isUnsubscribed by (rule isolated_evolves)
  have len: "this < length (heap ?wa)" using True by (simp add: set_isUnsubscribed_def)
  show ?thesis
  proof (cases "unsubscribe_cb (heap ?wa ! this)")
    case None
    with r True have "w' = ?wa" by (simp add: Observer_unsubscribe_def)
    with fa show ?thesis by simp
  next
    case (Some td)
    let ?wb = "record_event (TeardownCalled this) ?wa"
    from r True Some have c: "result_world (call td ?wb) = Some w'"
      by (simp add: Observer_unsubscribe_def)
    have "avoids b td" using isolated_handlers(4) [OF ia len nb Some] .
    from call_framesD [OF cf isolated_record_event [OF ia] this c]
    have "frame b ?wb w'" .
    moreover have "frame b ?wa ?wb" using nb by (simp add: frame_record_event)
    ultimately show ?thesis using fa by (blast intro: frame_trans)
  qed
qed

lemma terminal_frame:
  assumes ce: "call_evolves call" and cf: "call_frames b call" and nb: "this \<noteq> b"
    and iso: "isolated b wa" and av: "avoids b body"
    and r: "result_world (case call body wa of
                Return _ w' \<Rightarrow> Observer_unsubscribe call this w'
              | Thrown x w' \<Rightarrow> Thrown x w'
              | StackOverflow \<Rightarrow> StackOverflow) = Some w''"
  shows "frame b wa w''"
proof (cases "call body wa")
  case (Return u w1)
  then have rw: "result_world (call body wa) = Some w1" by simp
  have f1: "frame b wa w1" using call_framesD [OF cf iso av rw] .
  have "isolated b w1" using iso call_evolvesD [OF ce rw] by (rule isolated_evolves)
  moreover from r Return have "result_world (Observer_unsubscribe call this w1) = Some w''" by simp
  ultimately have "frame b w1 w''" by (rule Observer_unsubscribe_frame [OF cf nb])
  with f1 show ?thesis by (rule frame_trans)
next
  case (Thrown x w1)
  then have rw: "result_world (call body wa) = Some w1" by simp
  have "frame b wa w1" using call_framesD [OF cf iso av rw] .
  moreover from r Thrown have "w'' = w1" by simp
  ultimately show ?thesis by simp
next
  case StackOverflow
  with r show ?thesis by simp
qed

lemma Observer_next_frame:
  assumes cf: "call_frames b call" and nb: "this \<noteq> b" and iso: "isolated b w"
    and r: "result_world (Observer_next call this v w) = Some w'"
  shows "frame b w w'"
proof (cases "this < length (heap w) \<and> \<not> isUnsubscribed (heap w ! this)")
  case False
  with r show ?thesis by (auto simp: Observer_next_def frame_refl split: if_splits option.splits)
next
  case True
  show ?thesis
  proof (cases "h_next (handlers (heap w ! this))")
    case None
    with r True show ?thesis by (simp add: Observer_next_def frame_refl)
  next
    case (Some f)
    let ?wa = "record_event (NextCalled this v) w"
    from r True Some have c: "result_world (call (f v) ?wa) = Some w'"
      by (simp add: Observer_next_def)
    have "avoids b (f v)" using isolated_handlers(1) [OF iso _ nb Some] True by simp
    from call_framesD [OF cf isolated_record_event [OF iso] this c]
    have "frame b ?wa w'" .
    moreover have "frame b w ?wa" using nb by (simp add: frame_record_event)
    ultimately show ?thesis by (blast intro: frame_trans)
  qed
qed

lemma Observer_error_frame:
  assumes ce: "call_evolves call" and cf: "call_frames b call" and nb: "this \<noteq> b"
    and iso: "isolated b w"
    and r: "result_world (Observer_error call this e w) = Some w'"
  shows "frame b w w'"
proof (cases "this < length (heap w) \<and> \<not> isUnsubscribed (heap w ! this)")
  case False
  with r show ?thesis by (auto simp: Observer_error_def frame_refl split: if_splits)
next
  case True
  show ?thesis
  proof (cases "h_error (handlers (heap w ! this))")
    case None
    with r True show ?thesis
      by (auto simp: Observer_error_def intro: Observer_unsubscribe_frame [OF cf nb iso])
  next
    case (Some f)
    let ?wa = "record_event (ErrorCalled this e) w"
    have av: "avoids b (f e)" using isolated_handlers(2) [OF iso _ nb Some] True by simp
    from r True Some
    have "result_world (case call (f e) ?wa of
                Return _ w' \<Rightarrow> Observer_unsubscribe call this w'
              | Thrown x w' \<Rightarrow> Thrown x w'
              | StackOverflow \<Rightarrow> StackOverflow) = Some w'"
      by (simp add: Observer_error_def)
    from terminal_frame [OF ce cf nb isolated_record_event [OF iso] av this]
    have "frame b ?wa w'" .
    moreover have "frame b w ?wa" using nb by (simp add: frame_record_event)
    ultimately show ?thesis by (blast intro: frame_trans)
  qed
qed

lemma Observer_complete_frame:
  assumes ce: "call_evolves call" and cf: "call_frames b call" and nb: "this \<noteq> b"
    and iso: "isolated b w"
    and r: "result_world (Observer_complete call this w) = Some w'"
  shows "frame b w w'"
proof (cases "this < length (heap w) \<and> \<not> isUnsubscribed (heap w ! this)")
  case False
  with r show ?thesis by (auto simp: Observer_complete_def frame_refl split: if_splits)
next
  case True
  show ?thesis
  proof (cases "h_complete (handlers (heap w ! this))")
    case None
    with r True show ?thesis
      by (auto simp: Observer_complete_def intro: Observer_unsubscribe_frame [OF cf nb iso])
  next
    case (Some g)
    let ?wa = "record_event (CompleteCalled this) w"
    have av: "avoids b g" using isolated_handlers(3) [OF iso _ nb Some] True by simp
    from r True Some
    have "result_world (case call g ?wa of
                Return _ w' \<Rightarrow> Observer_unsubscribe call this w'
              | Thrown x w' \<Rightarrow> Thrown x w'
              | StackOverflow \<Rightarrow> StackOverflow) = Some w'"
      by (simp add: Observer_complete_def)
    from terminal_frame [OF ce cf nb isolated_record_event [OF iso] av this]
    have "frame b ?wa w'" .
    moreover have "frame b w ?wa" using nb by (simp add: frame_record_event)
    ultimately show ?thesis by (blast intro: frame_trans)
  qed
qed

lemma step_frame:
  assumes ce: "call_evolves call" and cf: "call_frames b call"
    and t: "target s \<noteq> Some b" and iso: "isolated b w"
    and r: "result_world (step call s w) = Some w'"
  shows "frame b w w'"
proof (cases s)
  case (CallNext r' v)
  with t r show ?thesis by (auto intro: Observer_next_frame [OF cf _ iso])
next
  case (CallError r' e)
  with t r show ?thesis by (auto intro: Observer_error_frame [OF ce cf _ iso])
next
  case (CallComplete r')
  with t r show ?thesis by (auto intro: Observer_complete_frame [OF ce cf _ iso])
next
  case (CallUnsubscribe r')
  with t r show ?thesis by (auto intro: Observer_unsubscribe_frame [OF cf _ iso])
next
  case (ConsoleLog m)
  with r show ?thesis by (auto simp: frame_def)
next
  case (Throw x)
  with r show ?thesis by (auto simp: frame_def)
qed

lemma exec_frame:
  assumes ce: "call_evolves call" and cf: "call_frames b call"
  shows "isolated b w \<Longrightarrow> avoids b body \<Longrightarrow> result_world (exec call body w) = Some w'
         \<Longrightarrow> frame b w w'"
proof (induction body arbitrary: w)
  case Nil
  then show ?case by (simp add: frame_refl)
next
  case (Cons s ss)
  from Cons.prems(2) have t: "target s \<noteq> Some b" and av: "avoids b ss"
    by (simp_all add: avoids_def)
  show ?case
  proof (cases "step call s w")
    case (Return u w1)
    then have rw: "result_world (step call s w) = Some w1" by simp
    have f1: "frame b w w1" using step_frame [OF ce cf t Cons.prems(1) rw] .
    have "isolated b w1" using Cons.prems(1) step_evolves [OF ce rw] by (rule isolated_evolves)
    moreover from Cons.prems(3) Return have "result_world (exec call ss w1) = Some w'" by simp
    ultimately have "frame b w1 w'" using av by (blast intro: Cons.IH)
    with f1 show ?thesis by (rule frame_trans)
  next
    case (Thrown x w1)
    then have rw: "result_world (step call s w) = Some w1" by simp
    have "frame b w w1" using step_frame [OF ce cf t Cons.prems(1) rw] .
    with Cons.prems(3) Thrown show ?thesis by simp
  next
    case StackOverflow
    with Cons.prems(3) show ?thesis by simp
  qed
qed

lemma run_call_frames: "call_frames b (run n)"
proof (induction n)
  case 0
  show ?case by (simp add: call_frames_def)
next
  case (Suc n)
  show ?case unfolding call_frames_def [of b "run (Suc n)"]
    using exec_frame [OF run_call_evolves Suc] by simp
qed

lemma run_frame:
  "isolated b w \<Longrightarrow> avoids b body \<Longrightarrow> result_world (run n body w) = Some w' \<Longrightarrow> frame b w w'"
  using run_call_frames by (rule call_framesD)

section \<open>Without a call of error, no error handler is invoked\<close>

lemma call_error_freeD:
  "call_error_free call \<Longrightarrow> world_error_free w \<Longrightarrow> error_free body \<Longrightarrow>
   result_world (call body w) = Some w' \<Longrightarrow> error_events (trace w') = error_events (trace w)"
  by (auto simp: call_error_free_def)

lemma world_error_free_evolves: "world_error_free w \<Longrightarrow> evolves w w' \<Longrightarrow> world_error_free w'"
  by (auto simp: world_error_free_def evolves_def observer_error_free_def)

lemma world_error_free_record_event: "world_error_free w \<Longrightarrow> world_error_free (record_event e w)"
  by (simp add: world_error_free_def record_event_def)

lemma world_error_free_closures:
  assumes "world_error_free w" and "this < length (heap w)"
  shows "h_next (handlers (heap w ! this)) = Some f \<Longrightarrow> error_free (f v)"
    and "h_complete (handlers (heap w ! this)) = Some g \<Longrightarrow> error_free g"
    and "unsubscribe_cb (heap w ! this) = Some td \<Longrightarrow> error_free td"
  using assms by (auto simp: world_error_free_def observer_error_free_def)

lemma Observer_unsubscribe_error_free:
  assumes cf: "call_error_free call" and wf: "world_error_free w"
    and r: "result_world (Observer_unsubscribe call this w) = Some w'"
  shows "error_events (trace w') = error_events (trace w)"
proof (cases "this < length (heap w)")
  case False
  with r show ?thesis by (simp add: Observer_unsubscribe_def)
next
  case True
  let ?wa = "set_isUnsubscribed this w"
  have wa: "world_error_free ?wa" using wf evolves_set_isUnsubscribed by (rule world_error_free_evolves)
  have len: "this < length (heap ?wa)" using True by (simp add: set_isUnsubscribed_simps)
  show ?thesis
  proof (cases "unsubscribe_cb (heap ?wa ! this)")
    case None
    with r True show ?thesis by (auto simp: Observer_unsubscribe_def set_isUnsubscribed_simps)
  next
    case (Some td)
    let ?wb = "record_event (TeardownCalled this) ?wa"
    from r True Some have c: "result_world (call td ?wb) = Some w'"
      by (simp add: Observer_unsubscribe_def)
    have "error_free td" using world_error_free_closures(3) [OF wa len Some] .
    from call_error_freeD [OF cf world_error_free_record_event [OF wa] this c]
    show ?thesis by (simp add: record_event_def set_isUnsubscribed_simps error_events_def)
  qed
qed

lemma Observer_next_error_free:
  assumes cf: "call_error_free call" and wf: "world_error_free w"
    and r: "result_world (Observer_next call this v w) = Some w'"
  shows "error_events (trace w') = error_events (trace w)"
proof (cases "this < length (heap w) \<and> \<not> isUnsubscribed (heap w ! this)")
  case False
  with r show ?thesis by (auto simp: Observer_next_def split: if_splits option.splits)
next
  case True
  show ?thesis
  proof (cases "h_next (handlers (heap w ! this))")
    case None
    with r True show ?thesis by (simp add: Observer_next_def)
  next
    case (Some f)
    let ?wa = "record_event (NextCalled this v) w"
    from r True Some have c: "result_world (call (f v) ?wa) = Some w'"
      by (simp add: Observer_next_def)
    have "error_free (f v)" using world_error_free_closures(1) [OF wf _ Some] True by simp
    from call_error_freeD [OF cf world_error_free_record_event [OF wf] this c]
    show ?thesis by (simp add: record_event_def error_events_def)
  qed
qed

lemma Observer_complete_error_free:
  assumes ce: "call_evolves call" and cf: "call_error_free call" and wf: "world_error_free w"
    and r: "result_world (Observer_complete call this w) = Some w'"
  shows "error_events (trace w') = error_events (trace w)"
proof (cases "this < length (heap w) \<and> \<not> isUnsubscribed (heap w ! this)")
  case False
  with r show ?thesis by (auto simp: Observer_complete_def split: if_splits)
next
  case True
  show ?thesis
  proof (cases "h_complete (handlers (heap w ! this))")
    case None
    with r True show ?thesis
      by (auto simp: Observer_complete_def intro: Observer_unsubscribe_error_free [OF cf wf])
  next
    case (Some g)
    let ?wa = "record_event (CompleteCalled this) w"
    have g: "error_free g" using world_error_free_closures(2) [OF wf _ Some] True by simp
    have wa: "world_error_free ?wa" using wf by (rule world_error_free_record_event)
    have ta: "error_events (trace ?wa) = error_events (trace w)"
      by (simp add: record_event_def error_events_def)
    show ?thesis
    proof (cases "call g ?wa")
      case (Return u w1)
      then have rw: "result_world (call g ?wa) = Some w1" by simp
      have t1: "error_events (trace w1) = error_events (trace ?wa)"
        using call_error_freeD [OF cf wa g rw] .
      have "world_error_free w1" using wa call_evolvesD [OF ce rw] by (rule world_error_free_evolves)
      moreover from r True Some Return
      have "result_world (Observer_unsubscribe call this w1) = Some w'"
        by (simp add: Observer_complete_def)
      ultimately have "error_events (trace w') = error_events (trace w1)"
        by (rule Observer_unsubscribe_error_free [OF cf])
      with t1 ta show ?thesis by simp
    next
      case (Thrown x w1)
      then have rw: "result_world (call g ?wa) = Some w1" by simp
      have "error_events (trace w1) = error_events (trace ?wa)"
        using call_error_freeD [OF cf wa g rw] .
      moreover from r True Some Thrown have "w' = w1" by (simp add: Observer_complete_def)
      ultimately show ?thesis using ta by simp
    next
      case StackOverflow
      with r True Some show ?thesis by (simp add: Observer_complete_def)
    qed
  qed
qed

lemma step_error_free:
  assumes ce: "call_evolves call" and cf: "call_error_free call"
    and s: "\<not> is_error_call s" and wf: "world_error_free w"
    and r: "result_world (step call s w) = Some w'"
  shows "error_events (trace w') = error_events (trace w)"
proof (cases s)
  case (CallNext r' v)
  with r show ?thesis by (auto intro: Observer_next_error_free [OF cf wf])
next
  case (CallError r' e)
  with s show ?thesis by simp
next
  case (CallComplete r')
  with r show ?thesis by (auto intro: Observer_complete_error_free [OF ce cf wf])
next
  case (CallUnsubscribe r')
  with r show ?thesis by (auto intro: Observer_unsubscribe_error_free [OF cf wf])
next
  case (ConsoleLog m)
  with r show ?thesis by auto
next
  case (Throw x)
  with r show ?thesis by auto
qed

lemma exec_error_free:
  assumes ce: "call_evolves call" and cf: "call_error_free call"
  shows "world_error_free w \<Longrightarrow> error_free body \<Longrightarrow> result_world (exec call body w) = Some w'
         \<Longrightarrow> error_events (trace w') = error_events (trace w)"
proof (induction body arbitrary: w)
  case Nil
  then show ?case by simp
next
  case (Cons s ss)
  from Cons.prems(2) have s: "\<not> is_error_call s" and ss: "error_free ss"
    by (simp_all add: error_free_def)
  show ?case
  proof (cases "step call s w")
    case (Return u w1)
    then have rw: "result_world (step call s w) = Some w1" by simp
    have t1: "error_events (trace w1) = error_events (trace w)"
      using step_error_free [OF ce cf s Cons.prems(1) rw] .
    have "world_error_free w1"
      using Cons.prems(1) step_evolves [OF ce rw] by (rule world_error_free_evolves)
    moreover from Cons.prems(3) Return have "result_world (exec call ss w1) = Some w'" by simp
    ultimately have "error_events (trace w') = error_events (trace w1)"
      using ss by (blast intro: Cons.IH)
    with t1 show ?thesis by simp
  next
    case (Thrown x w1)
    then have rw: "result_world (step call s w) = Some w1" by simp
    have "error_events (trace w1) = error_events (trace w)"
      using step_error_free [OF ce cf s Cons.prems(1) rw] .
    with Cons.prems(3) Thrown show ?thesis by simp
  next
    case StackOverflow
    with Cons.prems(3) show ?thesis by simp
  qed
qed

lemma run_call_error_free: "call_error_free (run n)"
proof (induction n)
  case 0
  show ?case by (simp add: call_error_free_def)
next
  case (Suc n)
  show ?case unfolding call_error_free_def [of "run (Suc n)"]
    using exec_error_free [OF run_call_evolves Suc] by simp
qed

lemma run_error_free:
  "world_error_free w \<Longrightarrow> error_free body \<Longrightarrow> result_world (run n body w) = Some w' \<Longrightarrow>
   error_events (trace w') = error_events (trace w)"
  using run_call_error_free by (rule call_error_freeD)

lemma subscribe_error_free:
  assumes "world_error_free (w\<lparr>heap := heap w @ [Observer_new hs]\<rparr>)"
    and "error_free (fst (subscribe_fn obs (length (heap w))))"
    and "result_world (Observable_subscribe (run n) obs hs w) = Some w'"
  shows "error_events (trace w') = error_events (trace w)"
proof -
  from subscribe_world [OF assms(3)] obtain w2 where
    r: "result_world (run n (fst (subscribe_fn obs (length (heap w))))
          (w\<lparr>heap := heap w @ [Observer_new hs]\<rparr>)) = Some w2"
    and w': "w' = w2 \<or> w' = set_unsubscribe_cb (length (heap w))
                                 (snd (subscribe_fn obs (length (heap w)))) w2"
    by blast
  from run_error_free [OF assms(1,2) r] w' show ?thesis
    by (auto simp: set_unsubscribe_cb_simps)
qed

section \<open>The properties of the specification\<close>

subsection \<open>Unsubscribing and the teardown\<close>

text \<open>C1, as amended. \<^verbatim>\<open>unsubscribe()\<close> has no guard of its own: every call on an Observer
  whose teardown is registered invokes the teardown again, so the teardown does not run
  once but once for each call. For a teardown that only logs: a caller that calls
  \<^verbatim>\<open>unsubscribe()\<close> \<open>N\<close> times returns and has invoked the teardown exactly \<open>N\<close> times; and
  when \<^verbatim>\<open>error\<close> or \<^verbatim>\<open>complete\<close> on a still active Observer (its handlers plain or missing)
  comes first, that call invokes the teardown once and the \<open>N\<close> calls of \<^verbatim>\<open>unsubscribe()\<close>
  after it once each, \<open>N + 1\<close> times in all.\<close>

theorem teardown_runs_once_per_unsubscribe:
  assumes "this < length (heap w)" and "unsubscribe_cb (heap w ! this) = Some td" and "plain td"
  shows "(\<exists>w'. run (Suc (Suc n)) (replicate N (CallUnsubscribe this)) w = Return () w' \<and>
           trace w' = trace w @ replicate N (TeardownCalled this)) \<and>
         (\<not> isUnsubscribed (heap w ! this) \<and> plain_handlers (handlers (heap w ! this)) \<and>
          (s = CallError this e \<or> s = CallComplete this) \<longrightarrow>
          (\<exists>w'. run (Suc (Suc n)) (s # replicate N (CallUnsubscribe this)) w = Return () w' \<and>
             teardown_calls this (trace w') =
               teardown_calls this (trace w) @ replicate (Suc N) (TeardownCalled this)))"
proof (intro conjI impI)
  from unsubscribe_repeated [OF assms(3,1,2), of n N]
  show "\<exists>w'. run (Suc (Suc n)) (replicate N (CallUnsubscribe this)) w = Return () w' \<and>
           trace w' = trace w @ replicate N (TeardownCalled this)"
    by (auto simp del: run.simps simp add: run.simps(2) [of "Suc n"])
next
  assume a: "\<not> isUnsubscribed (heap w ! this) \<and> plain_handlers (handlers (heap w ! this)) \<and>
          (s = CallError this e \<or> s = CallComplete this)"
  have "\<exists>w1. step (run (Suc n)) s w = Return () w1 \<and> this < length (heap w1) \<and>
          unsubscribe_cb (heap w1 ! this) = Some td \<and>
          teardown_calls this (trace w1) = teardown_calls this (trace w) @ [TeardownCalled this]"
  proof -
    from a consider (e) "s = CallError this e" | (c) "s = CallComplete this" by blast
    then show ?thesis
    proof cases
      case e
      show ?thesis
      proof (cases "h_error (handlers (heap w ! this))")
        case None
        with e a assms show ?thesis
          by (simp add: Observer_error_missing Observer_unsubscribe_plain set_isUnsubscribed_simps
              teardown_calls_def del: run.simps)
      next
        case (Some f)
        with a have "plain (f e)" by (simp add: plain_handlers_def)
        with e a assms Some show ?thesis
          by (simp add: Observer_error_plain Observer_unsubscribe_plain set_isUnsubscribed_simps
              teardown_calls_def del: run.simps)
      qed
    next
      case c
      show ?thesis
      proof (cases "h_complete (handlers (heap w ! this))")
        case None
        with c a assms show ?thesis
          by (simp add: Observer_complete_missing Observer_unsubscribe_plain set_isUnsubscribed_simps
              teardown_calls_def del: run.simps)
      next
        case (Some g)
        with a have "plain g" by (simp add: plain_handlers_def)
        with c a assms Some show ?thesis
          by (simp add: Observer_complete_plain Observer_unsubscribe_plain set_isUnsubscribed_simps
              teardown_calls_def del: run.simps)
      qed
    qed
  qed
  then obtain w1 where w1: "step (run (Suc n)) s w = Return () w1" "this < length (heap w1)"
      "unsubscribe_cb (heap w1 ! this) = Some td"
      "teardown_calls this (trace w1) = teardown_calls this (trace w) @ [TeardownCalled this]"
    by blast
  from unsubscribe_repeated [OF assms(3) w1(2,3), of n N] obtain w' where
    "exec (run (Suc n)) (replicate N (CallUnsubscribe this)) w1 = Return () w'"
    "trace w' = trace w1 @ replicate N (TeardownCalled this)"
    by blast
  with w1 show "\<exists>w'. run (Suc (Suc n)) (s # replicate N (CallUnsubscribe this)) w = Return () w' \<and>
             teardown_calls this (trace w') =
               teardown_calls this (trace w) @ replicate (Suc N) (TeardownCalled this)"
    by (simp del: run.simps add: run.simps(2) [of "Suc n"] teardown_calls_def)
qed

theorem teardown_runs_once_per_unsubscribe_witness:
  "0 < length (heap demo_active) \<and>
   unsubscribe_cb (heap demo_active ! 0) = Some [ConsoleLog ''unsubscribed''] \<and>
   plain [ConsoleLog ''unsubscribed'' :: (nat, string) stmt] \<and>
   run (Suc (Suc 0)) (replicate 2 (CallUnsubscribe 0)) demo_active
     = Return () demo_unsubscribed_twice \<and>
   trace demo_unsubscribed_twice = trace demo_active @ replicate 2 (TeardownCalled 0) \<and>
   \<not> isUnsubscribed (heap demo_active ! 0) \<and>
   plain_handlers (handlers (heap demo_active ! 0)) \<and>
   run (Suc (Suc 0)) (CallComplete 0 # replicate 2 (CallUnsubscribe 0)) demo_active
     = Return () demo_completed_unsubscribed_twice \<and>
   teardown_calls 0 (trace demo_completed_unsubscribed_twice) =
     teardown_calls 0 (trace demo_active) @ replicate (Suc 2) (TeardownCalled 0)"
proof -
  have h1: "0 < length (heap demo_active)" by (simp add: demo_active_def)
  have h2: "unsubscribe_cb (heap demo_active ! 0) = Some [ConsoleLog ''unsubscribed'']"
    by (simp add: demo_active_def)
  have h3: "plain [ConsoleLog ''unsubscribed'' :: (nat, string) stmt]" by (simp add: plain_def)
  have h4: "\<not> isUnsubscribed (heap demo_active ! 0) \<and>
     plain_handlers (handlers (heap demo_active ! 0)) \<and>
     ((CallComplete 0 :: (nat, string) stmt) = CallError 0 ''x'' \<or>
      (CallComplete 0 :: (nat, string) stmt) = CallComplete 0)"
    by (simp add: demo_handlers_def demo_active_def plain_handlers_def plain_def)
  have e1: "run (Suc (Suc 0)) (replicate 2 (CallUnsubscribe 0)) demo_active
     = Return () demo_unsubscribed_twice"
    by (simp add: demo_handlers_def demo_active_def demo_unsubscribed_twice_def core_defs
        numeral_2_eq_2)
  have e2: "run (Suc (Suc 0)) (CallComplete 0 # replicate 2 (CallUnsubscribe 0)) demo_active
     = Return () demo_completed_unsubscribed_twice"
    by (simp add: demo_handlers_def demo_active_def demo_completed_unsubscribed_twice_def
        core_defs numeral_2_eq_2)
  note t = teardown_runs_once_per_unsubscribe [OF h1 h2 h3, where n = 0 and N = 2
        and s = "CallComplete 0" and e = "''x''"]
  from t obtain w' where "run (Suc (Suc 0)) (replicate 2 (CallUnsubscribe 0)) demo_active = Return () w'"
    and "trace w' = trace demo_active @ replicate 2 (TeardownCalled 0)"
    by blast
  with e1 have c1: "trace demo_unsubscribed_twice = trace demo_active @ replicate 2 (TeardownCalled 0)"
    by simp
  from t h4 obtain w'' where
    "run (Suc (Suc 0)) (CallComplete 0 # replicate 2 (CallUnsubscribe 0)) demo_active = Return () w''"
    and "teardown_calls 0 (trace w'') =
      teardown_calls 0 (trace demo_active) @ replicate (Suc 2) (TeardownCalled 0)"
    by blast
  with e2 have c2: "teardown_calls 0 (trace demo_completed_unsubscribed_twice) =
      teardown_calls 0 (trace demo_active) @ replicate (Suc 2) (TeardownCalled 0)"
    by simp
  from h1 h2 h3 h4 e1 e2 c1 c2 show ?thesis by blast
qed

text \<open>The statement with ``exactly once'' fails: on an Observer with a registered teardown
  and no teardown invocation so far, two calls of \<^verbatim>\<open>unsubscribe()\<close> leave two.\<close>

theorem teardown_once_counterexample:
  "unsubscribe_cb (heap demo_active ! 0) = Some [ConsoleLog ''unsubscribed''] \<and>
   run (Suc (Suc 0)) [CallUnsubscribe 0, CallUnsubscribe 0] demo_active
     = Return () demo_unsubscribed_twice \<and>
   teardown_calls 0 (trace demo_active) = [] \<and>
   teardown_calls 0 (trace demo_unsubscribed_twice) = [TeardownCalled 0, TeardownCalled 0] \<and>
   length (teardown_calls 0 (trace demo_unsubscribed_twice)) \<noteq> 1"
  by (simp add: demo_handlers_def demo_active_def demo_unsubscribed_twice_def core_defs)

subsection \<open>Emitting a list\<close>

text \<open>C2. For every list \<open>vs\<close>, the empty one too, subscribing to \<^verbatim>\<open>Observable.from(vs)\<close> with
  a \<^verbatim>\<open>next\<close> and a \<^verbatim>\<open>complete\<close> handler returns (the handlers being plain, and the stack having
  room for the producer and a handler). The trace has then grown by exactly one
  invocation of \<^verbatim>\<open>next\<close> for each element, in the order of \<open>vs\<close>, followed by one invocation of
  \<^verbatim>\<open>complete\<close>; and whatever closure runs afterwards, no handler of that Observer is invoked
  again.\<close>

theorem from_delivers_in_order:
  assumes "h_next hs = Some f" and "\<forall>v. plain (f v)" and "h_complete hs = Some g" and "plain g"
  shows "\<exists>w'. Observable_subscribe (run (Suc (Suc n))) (Observable_from vs) hs w =
            Return (Subscription (length (heap w))) w' \<and>
          trace w' = trace w @ map (NextCalled (length (heap w))) vs
                       @ [CompleteCalled (length (heap w))] \<and>
          (\<forall>m body w''. result_world (run m body w') = Some w'' \<longrightarrow>
             handler_calls (length (heap w)) (trace w'') =
             handler_calls (length (heap w)) (trace w'))"
proof -
  let ?r = "length (heap w)"
  let ?w' = "w\<lparr>heap := heap w @ [\<lparr>handlers = hs, isUnsubscribed = True,
                           unsubscribe_cb = Some [ConsoleLog ''unsubscribed'']\<rparr>],
          trace := trace w @ map (NextCalled ?r) vs @ [CompleteCalled ?r],
          console := console w @ concat (map (\<lambda>v. logs (f v)) vs) @ logs g\<rparr>"
  have s: "Observable_subscribe (run (Suc (Suc n))) (Observable_from vs) hs w =
            Return (Subscription ?r) ?w'"
    using assms by (intro from_subscribe_plain) simp_all
  have i: "?r < length (heap ?w')" "isUnsubscribed (heap ?w' ! ?r)" by simp_all
  have "handler_calls ?r (trace w'') = handler_calls ?r (trace ?w')"
    if "result_world (run m body ?w') = Some w''" for m body w''
    using evolves_inert(3) [OF run_evolves [OF that] i] .
  with s show ?thesis by (intro exI [of _ ?w']) simp
qed

theorem from_delivers_in_order_witness:
  "h_next demo_handlers = Some (\<lambda>v. [ConsoleLog ''next'']) \<and>
   (\<forall>v::nat. plain [ConsoleLog ''next'' :: (nat, string) stmt]) \<and>
   h_complete demo_handlers = Some [ConsoleLog ''complete''] \<and>
   plain [ConsoleLog ''complete'' :: (nat, string) stmt] \<and>
   Observable_subscribe (run (Suc (Suc 0))) (Observable_from [10, 20]) demo_handlers demo_empty =
     Return (Subscription 0) demo_done \<and>
   trace demo_done = [NextCalled 0 10, NextCalled 0 20, CompleteCalled 0] \<and>
   result_world (run (Suc (Suc 0)) [CallNext 0 30, CallComplete 0, CallUnsubscribe 0] demo_done) =
     Some demo_done_unsubscribed \<and>
   handler_calls 0 (trace demo_done_unsubscribed) = handler_calls 0 (trace demo_done)"
proof -
  have h1: "h_next demo_handlers = Some (\<lambda>v. [ConsoleLog ''next''])"
    and h3: "h_complete demo_handlers = Some [ConsoleLog ''complete'']"
    by (simp_all add: demo_handlers_def demo_empty_def demo_done_def demo_done_unsubscribed_def)
  have h2: "\<forall>v::nat. plain [ConsoleLog ''next'' :: (nat, string) stmt]"
    and h4: "plain [ConsoleLog ''complete'' :: (nat, string) stmt]"
    by (simp_all add: plain_def)
  have e: "Observable_subscribe (run (Suc (Suc 0))) (Observable_from [10, 20]) demo_handlers demo_empty =
     Return (Subscription 0) demo_done"
    by (simp add: demo_handlers_def demo_empty_def demo_done_def demo_done_unsubscribed_def core_defs Observable_subscribe_def Observable_from_def Observer_new_def)
  have a: "result_world (run (Suc (Suc 0)) [CallNext 0 30, CallComplete 0, CallUnsubscribe 0] demo_done) =
     Some demo_done_unsubscribed"
    by (simp add: demo_handlers_def demo_empty_def demo_done_def demo_done_unsubscribed_def core_defs)
  have l: "length (heap demo_empty) = 0" by (simp add: demo_empty_def)
  from from_delivers_in_order [OF h1 h2 h3 h4, of 0 "[10, 20]" demo_empty] obtain w' where
    s: "Observable_subscribe (run (Suc (Suc 0))) (Observable_from [10, 20]) demo_handlers demo_empty =
          Return (Subscription (length (heap demo_empty))) w'"
    and af: "\<forall>m body w''. result_world (run m body w') = Some w'' \<longrightarrow>
             handler_calls (length (heap demo_empty)) (trace w'') =
             handler_calls (length (heap demo_empty)) (trace w')"
    by blast
  from s e have "w' = demo_done" by simp
  with af a l
  have "handler_calls 0 (trace demo_done_unsubscribed) = handler_calls 0 (trace demo_done)"
    by (metis (no_types))
  moreover have "trace demo_done = [NextCalled 0 10, NextCalled 0 20, CompleteCalled 0]"
    by (simp add: demo_handlers_def demo_empty_def demo_done_def demo_done_unsubscribed_def)
  ultimately show ?thesis using h1 h2 h3 h4 e a by simp
qed

subsection \<open>The unsubscribed flag\<close>

text \<open>C3, as amended. The \<^verbatim>\<open>isUnsubscribed\<close> flag of a new Observer is false. Once the flag of
  an Observer is true it stays true, and the handlers of that Observer are not invoked
  again, whatever closure runs and whoever subscribes. And once \<^verbatim>\<open>error(e)\<close> or
  \<^verbatim>\<open>complete()\<close> has been called on an Observer and the handler it invoked did not throw
  (the call returned, or threw only because the teardown did), the flag is true, and in
  every world reached afterwards \<^verbatim>\<open>next\<close>, \<^verbatim>\<open>error\<close> and \<^verbatim>\<open>complete\<close> on it return at once:
  nothing is invoked, the world is as it was, and nothing is thrown. A handler of
  \<^verbatim>\<open>error\<close> or \<^verbatim>\<open>complete\<close> that throws is left out: the methods catch nothing, so the throw
  ends the method before \<^verbatim>\<open>this.unsubscribe()\<close>.\<close>

theorem terminated_observer_is_inert:
  "\<not> isUnsubscribed (Observer_new hs) \<and>
   (r < length (heap u) \<and> isUnsubscribed (heap u ! r) \<and> result_world (run k b u) = Some u'
      \<longrightarrow> isUnsubscribed (heap u' ! r) \<and>
          handler_calls r (trace u') = handler_calls r (trace u)) \<and>
   (r < length (heap u) \<and> isUnsubscribed (heap u ! r) \<and>
    result_world (Observable_subscribe (run k) obs hs' u) = Some u''
      \<longrightarrow> isUnsubscribed (heap u'' ! r)) \<and>
   (this < length (heap w) \<and> (s = CallError this e \<or> s = CallComplete this) \<and>
    result_world (step (run n) s w) = Some w1 \<and> handler_returned (run n) s w \<and>
    result_world (run m body w1) = Some w2
      \<longrightarrow> isUnsubscribed (heap w1 ! this) \<and> isUnsubscribed (heap w2 ! this) \<and>
          handler_calls this (trace w2) = handler_calls this (trace w1) \<and>
          Observer_next call this v w2 = Return () w2 \<and>
          Observer_error call this e' w2 = Return () w2 \<and>
          Observer_complete call this w2 = Return () w2)"
proof (intro conjI impI)
  show "\<not> isUnsubscribed (Observer_new hs)" by (simp add: Observer_new_def)
next
  assume "r < length (heap u) \<and> isUnsubscribed (heap u ! r) \<and> result_world (run k b u) = Some u'"
  then show "isUnsubscribed (heap u' ! r)"
    and "handler_calls r (trace u') = handler_calls r (trace u)"
    using evolves_inert(2,3) [OF run_evolves] by blast+
next
  assume "r < length (heap u) \<and> isUnsubscribed (heap u ! r) \<and>
    result_world (Observable_subscribe (run k) obs hs' u) = Some u''"
  then show "isUnsubscribed (heap u'' ! r)"
    using subscribe_preserves_flag by blast
next
  assume a: "this < length (heap w) \<and> (s = CallError this e \<or> s = CallComplete this) \<and>
    result_world (step (run n) s w) = Some w1 \<and> handler_returned (run n) s w \<and>
    result_world (run m body w1) = Some w2"
  then have t: "this < length (heap w1)" "isUnsubscribed (heap w1 ! this)"
    using terminal_sets_flag [of this w s e n w1] by simp_all
  from a have "evolves w1 w2" by (blast intro: run_evolves)
  note i = evolves_inert [OF this t]
  show "isUnsubscribed (heap w1 ! this)" by (rule t(2))
  show "isUnsubscribed (heap w2 ! this)" by (rule i(2))
  show "handler_calls this (trace w2) = handler_calls this (trace w1)" by (rule i(3))
  show "Observer_next call this v w2 = Return () w2" by (rule inert_no_op(1) [OF i(1,2)])
  show "Observer_error call this e' w2 = Return () w2" by (rule inert_no_op(2) [OF i(1,2)])
  show "Observer_complete call this w2 = Return () w2" by (rule inert_no_op(3) [OF i(1,2)])
qed

theorem terminated_observer_is_inert_witness:
  "\<not> isUnsubscribed (Observer_new demo_handlers) \<and>
   0 < length (heap demo_unsubscribed) \<and> isUnsubscribed (heap demo_unsubscribed ! 0) \<and>
   result_world (run (Suc (Suc 0)) [CallUnsubscribe 0, CallNext 0 5] demo_unsubscribed) =
     Some (demo_unsubscribed\<lparr>trace := [NextCalled 0 1, TeardownCalled 0, TeardownCalled 0],
             console := [''next'', ''unsubscribed'', ''unsubscribed'']\<rparr>) \<and>
   isUnsubscribed (heap (demo_unsubscribed\<lparr>trace := [NextCalled 0 1, TeardownCalled 0, TeardownCalled 0],
             console := [''next'', ''unsubscribed'', ''unsubscribed'']\<rparr>) ! 0) \<and>
   handler_calls 0 [NextCalled 0 1, TeardownCalled 0, TeardownCalled 0 :: (nat, string) event]
     = handler_calls 0 (trace demo_unsubscribed) \<and>
   result_world (Observable_subscribe (run (Suc (Suc 0))) demo_ticker demo_handlers demo_unsubscribed) =
     Some (demo_unsubscribed\<lparr>heap := heap demo_unsubscribed @
               [\<lparr>handlers = demo_handlers, isUnsubscribed = False,
                 unsubscribe_cb = Some [ConsoleLog ''unsubscribed'']\<rparr>],
             trace := [NextCalled 0 1, TeardownCalled 0, NextCalled 1 1],
             console := [''next'', ''unsubscribed'', ''next'']\<rparr>) \<and>
   isUnsubscribed (heap (demo_unsubscribed\<lparr>heap := heap demo_unsubscribed @
               [\<lparr>handlers = demo_handlers, isUnsubscribed = False,
                 unsubscribe_cb = Some [ConsoleLog ''unsubscribed'']\<rparr>],
             trace := [NextCalled 0 1, TeardownCalled 0, NextCalled 1 1],
             console := [''next'', ''unsubscribed'', ''next'']\<rparr>) ! 0) \<and>
   0 < length (heap demo_active) \<and>
   step (run (Suc (Suc 0))) (CallError 0 ''boom'') demo_active = Return () demo_failed \<and>
   handler_returned (run (Suc (Suc 0))) (CallError 0 ''boom'') demo_active \<and>
   result_world (run (Suc (Suc 0)) [CallNext 0 2, CallError 0 ''again'', CallComplete 0] demo_failed)
     = Some demo_failed \<and>
   isUnsubscribed (heap demo_failed ! 0) \<and>
   handler_calls 0 (trace demo_failed) = [NextCalled 0 1, ErrorCalled 0 ''boom''] \<and>
   Observer_next (run (Suc 0)) 0 3 demo_failed = Return () demo_failed \<and>
   Observer_error (run (Suc 0)) 0 ''again'' demo_failed = Return () demo_failed \<and>
   Observer_complete (run (Suc 0)) 0 demo_failed = Return () demo_failed \<and>
   0 < length (heap demo_teardown_throws) \<and>
   step (run (Suc (Suc 0))) (CallComplete 0) demo_teardown_throws
     = Thrown ''teardown failed'' demo_teardown_thrown \<and>
   handler_returned (run (Suc (Suc 0))) (CallComplete 0) demo_teardown_throws \<and>
   result_world (run (Suc (Suc 0)) [CallNext 0 2, CallError 0 ''again'', CallComplete 0]
      demo_teardown_thrown) = Some demo_teardown_thrown \<and>
   isUnsubscribed (heap demo_teardown_thrown ! 0) \<and>
   handler_calls 0 (trace demo_teardown_thrown) = [CompleteCalled 0] \<and>
   Observer_next (run (Suc 0)) 0 3 demo_teardown_thrown = Return () demo_teardown_thrown \<and>
   Observer_error (run (Suc 0)) 0 ''again'' demo_teardown_thrown = Return () demo_teardown_thrown \<and>
   Observer_complete (run (Suc 0)) 0 demo_teardown_thrown = Return () demo_teardown_thrown"
proof -
  let ?u' = "demo_unsubscribed\<lparr>trace := [NextCalled 0 1, TeardownCalled 0, TeardownCalled 0],
             console := [''next'', ''unsubscribed'', ''unsubscribed'']\<rparr>"
  have h1: "0 < length (heap demo_unsubscribed) \<and> isUnsubscribed (heap demo_unsubscribed ! 0) \<and>
    result_world (run (Suc (Suc 0)) [CallUnsubscribe 0, CallNext 0 5] demo_unsubscribed) = Some ?u'"
    by (simp add: demo_handlers_def demo_active_def demo_unsubscribed_def demo_failed_def core_defs)
  let ?u'' = "demo_unsubscribed\<lparr>heap := heap demo_unsubscribed @
               [\<lparr>handlers = demo_handlers, isUnsubscribed = False,
                 unsubscribe_cb = Some [ConsoleLog ''unsubscribed'']\<rparr>],
             trace := [NextCalled 0 1, TeardownCalled 0, NextCalled 1 1],
             console := [''next'', ''unsubscribed'', ''next'']\<rparr>"
  have h1': "result_world (Observable_subscribe (run (Suc (Suc 0))) demo_ticker demo_handlers
      demo_unsubscribed) = Some ?u''"
    by (simp add: demo_handlers_def demo_unsubscribed_def demo_ticker_def core_defs
        Observable_subscribe_def Observer_new_def)
  have h2: "0 < length (heap demo_active) \<and>
    (CallError 0 ''boom'' = CallError 0 ''boom'' \<or> (CallError 0 ''boom'' :: (nat, string) stmt) = CallComplete 0) \<and>
    step (run (Suc (Suc 0))) (CallError 0 ''boom'') demo_active = Return () demo_failed \<and>
    handler_returned (run (Suc (Suc 0))) (CallError 0 ''boom'') demo_active \<and>
    result_world (run (Suc (Suc 0)) [CallNext 0 2, CallError 0 ''again'', CallComplete 0] demo_failed)
     = Some demo_failed"
    by (simp add: demo_handlers_def demo_active_def demo_unsubscribed_def demo_failed_def core_defs)
  have h3: "handler_calls 0 (trace demo_failed) = [NextCalled 0 1, ErrorCalled 0 ''boom'']"
    by (simp add: demo_handlers_def demo_active_def demo_unsubscribed_def demo_failed_def core_defs)
  have h4: "0 < length (heap demo_teardown_throws) \<and>
    ((CallComplete 0 :: (nat, string) stmt) = CallError 0 ''boom'' \<or>
     (CallComplete 0 :: (nat, string) stmt) = CallComplete 0) \<and>
    step (run (Suc (Suc 0))) (CallComplete 0) demo_teardown_throws
      = Thrown ''teardown failed'' demo_teardown_thrown \<and>
    handler_returned (run (Suc (Suc 0))) (CallComplete 0) demo_teardown_throws \<and>
    result_world (run (Suc (Suc 0)) [CallNext 0 2, CallError 0 ''again'', CallComplete 0]
      demo_teardown_thrown) = Some demo_teardown_thrown"
    by (simp add: demo_handlers_def demo_teardown_throws_def demo_teardown_thrown_def core_defs)
  have h5: "handler_calls 0 (trace demo_teardown_thrown) = [CompleteCalled 0]"
    by (simp add: demo_teardown_thrown_def core_defs)
  have second: "isUnsubscribed (heap demo_teardown_thrown ! 0) \<and>
    Observer_next (run (Suc 0)) 0 3 demo_teardown_thrown = Return () demo_teardown_thrown \<and>
    Observer_error (run (Suc 0)) 0 ''again'' demo_teardown_thrown = Return () demo_teardown_thrown \<and>
    Observer_complete (run (Suc 0)) 0 demo_teardown_thrown = Return () demo_teardown_thrown"
  proof -
    from h4 have "0 < length (heap demo_teardown_throws) \<and>
      ((CallComplete 0 :: (nat, string) stmt) = CallError 0 ''boom'' \<or>
       (CallComplete 0 :: (nat, string) stmt) = CallComplete 0) \<and>
      result_world (step (run (Suc (Suc 0))) (CallComplete 0) demo_teardown_throws)
        = Some demo_teardown_thrown \<and>
      handler_returned (run (Suc (Suc 0))) (CallComplete 0) demo_teardown_throws \<and>
      result_world (run (Suc (Suc 0)) [CallNext 0 2, CallError 0 ''again'', CallComplete 0]
        demo_teardown_thrown) = Some demo_teardown_thrown"
      by (simp del: run.simps step.simps handler_returned.simps)
    with terminated_observer_is_inert [where hs = demo_handlers and r = 0
        and u = demo_unsubscribed and k = 0 and b = "[]" and u' = demo_unsubscribed
        and obs = demo_ticker and hs' = demo_handlers and u'' = demo_unsubscribed
        and this = 0 and w = demo_teardown_throws
        and s = "CallComplete 0" and e = "''boom''" and n = "Suc (Suc 0)"
        and ?w1.0 = demo_teardown_thrown and m = "Suc (Suc 0)"
        and body = "[CallNext 0 2, CallError 0 ''again'', CallComplete 0]"
        and ?w2.0 = demo_teardown_thrown and call = "run (Suc 0)" and v = 3
        and e' = "''again''"]
    show ?thesis by blast
  qed
  show ?thesis
    using terminated_observer_is_inert [where hs = demo_handlers and r = 0
        and u = demo_unsubscribed and k = "Suc (Suc 0)" and b = "[CallUnsubscribe 0, CallNext 0 5]"
        and u' = ?u' and obs = demo_ticker and hs' = demo_handlers and u'' = ?u'' and this = 0 and w = demo_active and s = "CallError 0 ''boom''"
        and e = "''boom''" and n = "Suc (Suc 0)" and ?w1.0 = demo_failed and m = "Suc (Suc 0)"
        and body = "[CallNext 0 2, CallError 0 ''again'', CallComplete 0]" and ?w2.0 = demo_failed
        and call = "run (Suc 0)" and v = 3 and e' = "''again''"] h1 h1' h2 h3 h4 h5 second
    by simp
qed

text \<open>The statement without that condition fails. The \<^verbatim>\<open>error\<close> handler throws:
  \<^verbatim>\<open>error(e)\<close> has invoked it and ends there, the flag is still false, and the \<^verbatim>\<open>next\<close> and
  \<^verbatim>\<open>error\<close> calls that follow invoke the handlers again, the second one throwing again.\<close>

theorem terminal_handler_throws_counterexample:
  "\<not> isUnsubscribed (heap demo_handler_throws ! 0) \<and>
   step (run (Suc (Suc 0))) (CallError 0 ''boom'') demo_handler_throws
     = Thrown ''handler failed'' demo_handler_thrown \<and>
   handler_calls 0 (trace demo_handler_thrown) = [ErrorCalled 0 ''boom''] \<and>
   \<not> isUnsubscribed (heap demo_handler_thrown ! 0) \<and>
   Observer_next (run (Suc 0)) 0 7 demo_handler_thrown = Return () demo_handler_thrown_next \<and>
   handler_calls 0 (trace demo_handler_thrown_next) = [ErrorCalled 0 ''boom'', NextCalled 0 7] \<and>
   Observer_error (run (Suc 0)) 0 ''again'' demo_handler_thrown_next
     = Thrown ''handler failed'' demo_handler_thrown_again \<and>
   handler_calls 0 (trace demo_handler_thrown_again)
     = [ErrorCalled 0 ''boom'', NextCalled 0 7, ErrorCalled 0 ''again''] \<and>
   Observer_next (run (Suc 0)) 0 7 demo_handler_thrown \<noteq> Return () demo_handler_thrown"
  by (simp add: demo_handler_throws_def demo_handler_thrown_def demo_handler_thrown_next_def
      demo_handler_thrown_again_def core_defs)

subsection \<open>A producer that throws\<close>

text \<open>C4. \<^verbatim>\<open>subscribe\<close> throws exactly when the producer throws, the same value in the same
  world: nothing is caught and nothing is done after the throw, in particular the
  \<^verbatim>\<open>error\<close> handler is not invoked. A producer that throws at once leaves a trace with no
  new entry, whatever handlers were supplied. The \<^verbatim>\<open>error\<close> handler is invoked when the
  producer calls the \<^verbatim>\<open>error\<close> method of the Observer; and when neither the producer nor
  any closure held by an Observer calls an \<^verbatim>\<open>error\<close> method, no \<^verbatim>\<open>error\<close> handler is invoked
  by the time \<^verbatim>\<open>subscribe\<close> returns or throws.\<close>

theorem producer_exception_propagates:
  "(Observable_subscribe (run n) obs hs w = Thrown x w' \<longleftrightarrow>
      run n (fst (subscribe_fn obs (length (heap w)))) (w\<lparr>heap := heap w @ [Observer_new hs]\<rparr>)
        = Thrown x w') \<and>
   (fst (subscribe_fn obs (length (heap w))) = Throw x # rest \<longrightarrow>
      Observable_subscribe (run (Suc n)) obs hs w
        = Thrown x (w\<lparr>heap := heap w @ [Observer_new hs]\<rparr>)) \<and>
   (fst (subscribe_fn obs (length (heap w))) = [CallError (length (heap w)) x] \<and>
    h_error hs = Some f \<and> plain (f x) \<longrightarrow>
      Observable_subscribe (run (Suc (Suc n))) obs hs w
        = Return (Subscription (length (heap w)))
            (w\<lparr>heap := heap w @ [\<lparr>handlers = hs, isUnsubscribed = True,
                   unsubscribe_cb = Some (snd (subscribe_fn obs (length (heap w))))\<rparr>],
               trace := trace w @ [ErrorCalled (length (heap w)) x],
               console := console w @ logs (f x)\<rparr>)) \<and>
   (world_error_free (w\<lparr>heap := heap w @ [Observer_new hs]\<rparr>) \<and>
    error_free (fst (subscribe_fn obs (length (heap w)))) \<and>
    result_world (Observable_subscribe (run n) obs hs w) = Some w''
      \<longrightarrow> error_events (trace w'') = error_events (trace w))"
proof (intro conjI impI)
  assume "world_error_free (w\<lparr>heap := heap w @ [Observer_new hs]\<rparr>) \<and>
    error_free (fst (subscribe_fn obs (length (heap w)))) \<and>
    result_world (Observable_subscribe (run n) obs hs w) = Some w''"
  then show "error_events (trace w'') = error_events (trace w)"
    using subscribe_error_free by blast
next
  show "Observable_subscribe (run n) obs hs w = Thrown x w' \<longleftrightarrow>
      run n (fst (subscribe_fn obs (length (heap w)))) (w\<lparr>heap := heap w @ [Observer_new hs]\<rparr>)
        = Thrown x w'"
    by (simp add: Observable_subscribe_def Let_def split: prod.splits result.splits)
next
  assume "fst (subscribe_fn obs (length (heap w))) = Throw x # rest"
  then show "Observable_subscribe (run (Suc n)) obs hs w
        = Thrown x (w\<lparr>heap := heap w @ [Observer_new hs]\<rparr>)"
    by (auto simp: Observable_subscribe_def Let_def split: prod.splits)
next
  let ?r = "length (heap w)"
  let ?w1 = "w\<lparr>heap := heap w @ [Observer_new hs]\<rparr>"
  assume a: "fst (subscribe_fn obs ?r) = [CallError ?r x] \<and> h_error hs = Some f \<and> plain (f x)"
  have i: "?r < length (heap ?w1)" "\<not> isUnsubscribed (heap ?w1 ! ?r)"
    "h_error (handlers (heap ?w1 ! ?r)) = Some f"
    using a by (simp_all add: Observer_new_def)
  let ?w2 = "?w1\<lparr>trace := trace ?w1 @ [ErrorCalled ?r x], console := console ?w1 @ logs (f x)\<rparr>"
  have j: "?r < length (heap ?w2)" "unsubscribe_cb (heap ?w2 ! ?r) = None"
    by (simp_all add: Observer_new_def)
  have "run (Suc (Suc n)) [CallError ?r x] ?w1 = Return () (set_isUnsubscribed ?r ?w2)"
    using Observer_error_plain [OF i, of x n] a
      Observer_unsubscribe_no_teardown [OF j, of "run (Suc n)"]
    by (simp del: run.simps add: run.simps(2) [of "Suc n"])
  with a show "Observable_subscribe (run (Suc (Suc n))) obs hs w
        = Return (Subscription ?r)
            (w\<lparr>heap := heap w @ [\<lparr>handlers = hs, isUnsubscribed = True,
                   unsubscribe_cb = Some (snd (subscribe_fn obs ?r))\<rparr>],
               trace := trace w @ [ErrorCalled ?r x],
               console := console w @ logs (f x)\<rparr>)"
    by (simp add: Observable_subscribe_def Let_def set_isUnsubscribed_def set_unsubscribe_cb_def
        Observer_new_def case_prod_beta del: run.simps)
qed

theorem producer_exception_propagates_witness:
  "run (Suc (Suc 0)) (fst (subscribe_fn demo_throwing (length (heap demo_empty))))
      (demo_empty\<lparr>heap := heap demo_empty @ [Observer_new demo_handlers]\<rparr>)
     = Thrown ''broken'' demo_emitted \<and>
   Observable_subscribe (run (Suc (Suc 0))) demo_throwing demo_handlers demo_empty
     = Thrown ''broken'' demo_emitted \<and>
   fst (subscribe_fn demo_throwing_at_once (length (heap demo_empty)))
     = Throw ''broken'' # [CallNext 0 2] \<and>
   Observable_subscribe (run (Suc 0)) demo_throwing_at_once demo_handlers demo_empty
     = Thrown ''broken'' (demo_empty\<lparr>heap := heap demo_empty @ [Observer_new demo_handlers]\<rparr>) \<and>
   trace (demo_empty\<lparr>heap := heap demo_empty @ [Observer_new demo_handlers]\<rparr>) = [] \<and>
   fst (subscribe_fn demo_erroring (length (heap demo_empty)))
     = [CallError (length (heap demo_empty)) ''broken''] \<and>
   h_error demo_handlers = Some (\<lambda>e. [ConsoleLog e]) \<and>
   plain [ConsoleLog ''broken'' :: (nat, string) stmt] \<and>
   Observable_subscribe (run (Suc (Suc 0))) demo_erroring demo_handlers demo_empty
     = Return (Subscription 0)
         \<lparr>heap = [\<lparr>handlers = demo_handlers, isUnsubscribed = True,
                    unsubscribe_cb = Some [ConsoleLog ''released'']\<rparr>],
          trace = [ErrorCalled 0 ''broken''], console = [''broken'']\<rparr> \<and>
   world_error_free (demo_empty\<lparr>heap := heap demo_empty @ [Observer_new demo_handlers]\<rparr>) \<and>
   error_free (fst (subscribe_fn demo_throwing (length (heap demo_empty)))) \<and>
   result_world (Observable_subscribe (run (Suc (Suc 0))) demo_throwing demo_handlers demo_empty)
     = Some demo_emitted \<and>
   error_events (trace demo_emitted) = error_events (trace demo_empty)"
proof -
  have f: "world_error_free (demo_empty\<lparr>heap := heap demo_empty @ [Observer_new demo_handlers]\<rparr>) \<and>
     error_free (fst (subscribe_fn demo_throwing (length (heap demo_empty))))"
    by (simp add: demo_empty_def demo_handlers_def demo_throwing_def Observer_new_def
        world_error_free_def observer_error_free_def error_free_def)
  have h1: "run (Suc (Suc 0)) (fst (subscribe_fn demo_throwing (length (heap demo_empty))))
      (demo_empty\<lparr>heap := heap demo_empty @ [Observer_new demo_handlers]\<rparr>)
     = Thrown ''broken'' demo_emitted"
    by (simp add: demo_throwing_def demo_emitted_def demo_handlers_def demo_empty_def demo_throwing_def demo_emitted_def demo_throwing_at_once_def demo_erroring_def core_defs Observer_new_def)
  have h2: "fst (subscribe_fn demo_throwing_at_once (length (heap demo_empty)))
     = Throw ''broken'' # [CallNext 0 2]"
    by (simp add: demo_throwing_at_once_def demo_empty_def)
  have h3: "fst (subscribe_fn demo_erroring (length (heap demo_empty)))
       = [CallError (length (heap demo_empty)) ''broken''] \<and>
     h_error demo_handlers = Some (\<lambda>e. [ConsoleLog e]) \<and>
     plain [ConsoleLog ''broken'' :: (nat, string) stmt]"
    by (simp add: demo_erroring_def demo_handlers_def demo_empty_def demo_throwing_def demo_emitted_def demo_throwing_at_once_def demo_erroring_def plain_def)
  have t: "trace (demo_empty\<lparr>heap := heap demo_empty @ [Observer_new demo_handlers]\<rparr>) = []"
    by (simp add: demo_empty_def)
  have w: "demo_empty\<lparr>heap := heap demo_empty @ [\<lparr>handlers = demo_handlers, isUnsubscribed = True,
                   unsubscribe_cb = Some (snd (subscribe_fn demo_erroring (length (heap demo_empty))))\<rparr>],
               trace := trace demo_empty @ [ErrorCalled (length (heap demo_empty)) ''broken''],
               console := console demo_empty @ logs [ConsoleLog ''broken'' :: (nat, string) stmt]\<rparr>
     = \<lparr>heap = [\<lparr>handlers = demo_handlers, isUnsubscribed = True,
                    unsubscribe_cb = Some [ConsoleLog ''released'']\<rparr>],
          trace = [ErrorCalled 0 ''broken''], console = [''broken'']\<rparr>"
    by (simp add: demo_empty_def demo_erroring_def)
  note a = producer_exception_propagates [where n = "Suc (Suc 0)" and obs = demo_throwing
      and hs = demo_handlers and w = demo_empty and x = "''broken''" and w' = demo_emitted
      and n = 0 and rest = "[]" and f = "\<lambda>e. [ConsoleLog e]"]
  note b = producer_exception_propagates [where n = 0 and obs = demo_throwing_at_once
      and hs = demo_handlers and w = demo_empty and x = "''broken''" and w' = demo_emitted
      and rest = "[CallNext 0 2]" and f = "\<lambda>e. [ConsoleLog e]"]
  note c = producer_exception_propagates [where n = 0 and obs = demo_erroring
      and hs = demo_handlers and w = demo_empty and x = "''broken''" and w' = demo_emitted
      and rest = "[]" and f = "\<lambda>e. [ConsoleLog e]"]
  from a h1 have th: "Observable_subscribe (run (Suc (Suc 0))) demo_throwing demo_handlers demo_empty
     = Thrown ''broken'' demo_emitted" by blast
  then have rw: "result_world (Observable_subscribe (run (Suc (Suc 0))) demo_throwing demo_handlers
      demo_empty) = Some demo_emitted"
    by (simp del: run.simps)
  from producer_exception_propagates [where n = "Suc (Suc 0)" and obs = demo_throwing
      and hs = demo_handlers and w = demo_empty and w'' = demo_emitted] f rw
  have ee: "error_events (trace demo_emitted) = error_events (trace demo_empty)" by blast
  note th
  moreover from b h2
  have "Observable_subscribe (run (Suc 0)) demo_throwing_at_once demo_handlers demo_empty
     = Thrown ''broken'' (demo_empty\<lparr>heap := heap demo_empty @ [Observer_new demo_handlers]\<rparr>)"
    by blast
  moreover from c h3 w
  have "Observable_subscribe (run (Suc (Suc 0))) demo_erroring demo_handlers demo_empty
     = Return (Subscription 0)
         \<lparr>heap = [\<lparr>handlers = demo_handlers, isUnsubscribed = True,
                    unsubscribe_cb = Some [ConsoleLog ''released'']\<rparr>],
          trace = [ErrorCalled 0 ''broken''], console = [''broken'']\<rparr>"
    by (simp add: demo_empty_def del: run.simps)
  ultimately show ?thesis using h1 h2 h3 t f rw ee by (simp del: run.simps)
qed

subsection \<open>Missing handlers\<close>

text \<open>C5. A call on a channel whose handler is missing throws nothing. \<^verbatim>\<open>next\<close> without a
  \<^verbatim>\<open>next\<close> handler changes nothing. \<^verbatim>\<open>error\<close> and \<^verbatim>\<open>complete\<close> on an active Observer without
  the matching handler still set the flag, and still invoke the teardown when one is
  registered (a plain one here; what a teardown throws is its own). \<^verbatim>\<open>subscribe({})\<close> on
  \<^verbatim>\<open>from(vs)\<close>, for \<^verbatim>\<open>[1,2,3]\<close> as for any list, returns with the Observer unsubscribed and
  the trace as it was; and with any handlers left out, those supplied being plain, it
  returns with the Observer unsubscribed.\<close>

theorem missing_handlers_are_safe:
  "(h_next (handlers (heap w ! this)) = None \<longrightarrow> Observer_next call this v w = Return () w) \<and>
   (this < length (heap w) \<and> \<not> isUnsubscribed (heap w ! this) \<and>
    unsubscribe_cb (heap w ! this) = None \<longrightarrow>
      (h_error (handlers (heap w ! this)) = None \<longrightarrow>
         Observer_error call this e w = Return () (set_isUnsubscribed this w)) \<and>
      (h_complete (handlers (heap w ! this)) = None \<longrightarrow>
         Observer_complete call this w = Return () (set_isUnsubscribed this w))) \<and>
   (this < length (heap w) \<and> \<not> isUnsubscribed (heap w ! this) \<and>
    unsubscribe_cb (heap w ! this) = Some td \<and> plain td \<longrightarrow>
      (h_error (handlers (heap w ! this)) = None \<longrightarrow>
         Observer_error (run (Suc n)) this e w =
           Return () ((set_isUnsubscribed this w)
             \<lparr>trace := trace w @ [TeardownCalled this], console := console w @ logs td\<rparr>)) \<and>
      (h_complete (handlers (heap w ! this)) = None \<longrightarrow>
         Observer_complete (run (Suc n)) this w =
           Return () ((set_isUnsubscribed this w)
             \<lparr>trace := trace w @ [TeardownCalled this], console := console w @ logs td\<rparr>))) \<and>
   Observable_subscribe (run (Suc n)) (Observable_from vs)
       \<lparr>h_next = None, h_error = None, h_complete = None\<rparr> w =
     Return (Subscription (length (heap w)))
       (w\<lparr>heap := heap w @ [\<lparr>handlers = \<lparr>h_next = None, h_error = None, h_complete = None\<rparr>,
                           isUnsubscribed = True,
                           unsubscribe_cb = Some [ConsoleLog ''unsubscribed'']\<rparr>]\<rparr>) \<and>
   (plain_handlers hs \<longrightarrow>
      (\<exists>w'. Observable_subscribe (run (Suc (Suc n))) (Observable_from vs) hs w =
              Return (Subscription (length (heap w))) w' \<and>
            isUnsubscribed (heap w' ! length (heap w))))"
proof (intro conjI impI)
  assume "plain_handlers hs"
  from from_subscribe_any [OF this, of n vs w]
  show "\<exists>w'. Observable_subscribe (run (Suc (Suc n))) (Observable_from vs) hs w =
              Return (Subscription (length (heap w))) w' \<and>
            isUnsubscribed (heap w' ! length (heap w))"
    by blast
next
  show "Observer_next call this v w = Return () w" if "h_next (handlers (heap w ! this)) = None"
    using that by (rule Observer_next_missing)
next
  assume a: "this < length (heap w) \<and> \<not> isUnsubscribed (heap w ! this) \<and>
    unsubscribe_cb (heap w ! this) = None"
  show "Observer_error call this e w = Return () (set_isUnsubscribed this w)"
    if "h_error (handlers (heap w ! this)) = None"
    using a that by (simp add: Observer_error_missing Observer_unsubscribe_no_teardown)
  show "Observer_complete call this w = Return () (set_isUnsubscribed this w)"
    if "h_complete (handlers (heap w ! this)) = None"
    using a that by (simp add: Observer_complete_missing Observer_unsubscribe_no_teardown)
next
  assume a: "this < length (heap w) \<and> \<not> isUnsubscribed (heap w ! this) \<and>
    unsubscribe_cb (heap w ! this) = Some td \<and> plain td"
  show "Observer_error (run (Suc n)) this e w =
           Return () ((set_isUnsubscribed this w)
             \<lparr>trace := trace w @ [TeardownCalled this], console := console w @ logs td\<rparr>)"
    if "h_error (handlers (heap w ! this)) = None"
    using a that by (simp add: Observer_error_missing Observer_unsubscribe_plain del: run.simps)
  show "Observer_complete (run (Suc n)) this w =
           Return () ((set_isUnsubscribed this w)
             \<lparr>trace := trace w @ [TeardownCalled this], console := console w @ logs td\<rparr>)"
    if "h_complete (handlers (heap w ! this)) = None"
    using a that by (simp add: Observer_complete_missing Observer_unsubscribe_plain del: run.simps)
next
  show "Observable_subscribe (run (Suc n)) (Observable_from vs)
       \<lparr>h_next = None, h_error = None, h_complete = None\<rparr> w =
     Return (Subscription (length (heap w)))
       (w\<lparr>heap := heap w @ [\<lparr>handlers = \<lparr>h_next = None, h_error = None, h_complete = None\<rparr>,
                           isUnsubscribed = True,
                           unsubscribe_cb = Some [ConsoleLog ''unsubscribed'']\<rparr>]\<rparr>)"
    by (rule from_subscribe_no_handlers)
qed

theorem missing_handlers_are_safe_witness:
  "h_next (handlers (heap demo_bare ! 0)) = None \<and>
   Observer_next (run 0) 0 7 demo_bare = Return () demo_bare \<and>
   0 < length (heap demo_bare) \<and> \<not> isUnsubscribed (heap demo_bare ! 0) \<and>
   unsubscribe_cb (heap demo_bare ! 0) = None \<and>
   h_error (handlers (heap demo_bare ! 0)) = None \<and>
   Observer_error (run 0) 0 ''boom'' demo_bare = Return () (set_isUnsubscribed 0 demo_bare) \<and>
   h_complete (handlers (heap demo_bare ! 0)) = None \<and>
   Observer_complete (run 0) 0 demo_bare = Return () (set_isUnsubscribed 0 demo_bare) \<and>
   isUnsubscribed (heap (set_isUnsubscribed 0 demo_bare) ! 0) \<and>
   1 < length (heap demo_bare) \<and> \<not> isUnsubscribed (heap demo_bare ! 1) \<and>
   unsubscribe_cb (heap demo_bare ! 1) = Some [ConsoleLog ''released''] \<and>
   plain [ConsoleLog ''released'' :: (nat, string) stmt] \<and>
   h_error (handlers (heap demo_bare ! 1)) = None \<and>
   Observer_error (run (Suc 0)) 1 ''boom'' demo_bare =
     Return () ((set_isUnsubscribed 1 demo_bare)\<lparr>trace := [TeardownCalled 1], console := [''released'']\<rparr>) \<and>
   h_complete (handlers (heap demo_bare ! 1)) = None \<and>
   Observer_complete (run (Suc 0)) 1 demo_bare =
     Return () ((set_isUnsubscribed 1 demo_bare)\<lparr>trace := [TeardownCalled 1], console := [''released'']\<rparr>) \<and>
   Observable_subscribe (run (Suc 0)) (Observable_from [1, 2, 3])
       \<lparr>h_next = None, h_error = None, h_complete = None\<rparr> demo_empty =
     Return (Subscription 0)
       \<lparr>heap = [\<lparr>handlers = \<lparr>h_next = None, h_error = None, h_complete = None\<rparr>,
                  isUnsubscribed = True, unsubscribe_cb = Some [ConsoleLog ''unsubscribed'']\<rparr>],
        trace = [], console = []\<rparr> \<and>
   plain_handlers demo_next_only \<and>
   Observable_subscribe (run (Suc (Suc 0))) (Observable_from [1, 2, 3]) demo_next_only demo_empty =
     Return (Subscription 0)
       \<lparr>heap = [\<lparr>handlers = demo_next_only, isUnsubscribed = True,
                  unsubscribe_cb = Some [ConsoleLog ''unsubscribed'']\<rparr>],
        trace = [NextCalled 0 1, NextCalled 0 2, NextCalled 0 3],
        console = [''next'', ''next'', ''next'']\<rparr> \<and>
   isUnsubscribed (heap \<lparr>heap = [\<lparr>handlers = demo_next_only, isUnsubscribed = True,
                  unsubscribe_cb = Some [ConsoleLog ''unsubscribed'']\<rparr>],
        trace = [NextCalled 0 1, NextCalled 0 2, NextCalled 0 3 :: (nat, string) event],
        console = [''next'', ''next'', ''next'']\<rparr> ! 0)"
proof -
  have h: "h_next (handlers (heap demo_bare ! 0)) = None"
    "0 < length (heap demo_bare) \<and> \<not> isUnsubscribed (heap demo_bare ! 0) \<and>
       unsubscribe_cb (heap demo_bare ! 0) = None"
    "h_error (handlers (heap demo_bare ! 0)) = None"
    "h_complete (handlers (heap demo_bare ! 0)) = None"
    "isUnsubscribed (heap (set_isUnsubscribed 0 demo_bare) ! 0)"
    "1 < length (heap demo_bare) \<and> \<not> isUnsubscribed (heap demo_bare ! 1) \<and>
       unsubscribe_cb (heap demo_bare ! 1) = Some [ConsoleLog ''released''] \<and>
       plain [ConsoleLog ''released'' :: (nat, string) stmt]"
    "h_error (handlers (heap demo_bare ! 1)) = None"
    "h_complete (handlers (heap demo_bare ! 1)) = None"
    by (simp_all add: demo_bare_def no_handlers_def plain_def set_isUnsubscribed_def)
  have t: "trace demo_bare = []" "console demo_bare = []" "heap demo_empty = []"
    "length (heap demo_empty) = 0"
    "demo_empty\<lparr>heap := [\<lparr>handlers = \<lparr>h_next = None, h_error = None, h_complete = None\<rparr>,
                  isUnsubscribed = True, unsubscribe_cb = Some [ConsoleLog ''unsubscribed'']\<rparr>]\<rparr>
     = \<lparr>heap = [\<lparr>handlers = \<lparr>h_next = None, h_error = None, h_complete = None\<rparr>,
                  isUnsubscribed = True, unsubscribe_cb = Some [ConsoleLog ''unsubscribed'']\<rparr>],
        trace = [], console = []\<rparr>"
    by (simp_all add: demo_bare_def demo_empty_def)
  have p: "plain_handlers demo_next_only" by (simp add: demo_next_only_def plain_handlers_def plain_def)
  have s: "Observable_subscribe (run (Suc (Suc 0))) (Observable_from [1, 2, 3]) demo_next_only demo_empty =
     Return (Subscription 0)
       \<lparr>heap = [\<lparr>handlers = demo_next_only, isUnsubscribed = True,
                  unsubscribe_cb = Some [ConsoleLog ''unsubscribed'']\<rparr>],
        trace = [NextCalled 0 1, NextCalled 0 2, NextCalled 0 3],
        console = [''next'', ''next'', ''next'']\<rparr>"
    by (simp add: demo_next_only_def demo_empty_def core_defs Observable_subscribe_def
        Observable_from_def Observer_new_def)
  note d = missing_handlers_are_safe [where w = demo_empty and this = 0 and call = "run 0"
      and v = 7 and e = "''boom''" and vs = "[1, 2, 3]" and n = 0 and td = "[]"
      and hs = demo_next_only]
  from d p obtain w' where
    "Observable_subscribe (run (Suc (Suc 0))) (Observable_from [1, 2, 3]) demo_next_only demo_empty =
       Return (Subscription (length (heap demo_empty))) w'"
    and "isUnsubscribed (heap w' ! length (heap demo_empty))"
    by blast
  with s have i: "isUnsubscribed (heap \<lparr>heap = [\<lparr>handlers = demo_next_only, isUnsubscribed = True,
                  unsubscribe_cb = Some [ConsoleLog ''unsubscribed'']\<rparr>],
        trace = [NextCalled 0 1, NextCalled 0 2, NextCalled 0 3 :: (nat, string) event],
        console = [''next'', ''next'', ''next'']\<rparr> ! 0)"
    by (simp add: demo_empty_def)
  note a = missing_handlers_are_safe [where w = demo_bare and this = 0 and call = "run 0"
      and v = 7 and e = "''boom''" and vs = "[]" and n = 0 and td = "[]"]
  note b = missing_handlers_are_safe [where w = demo_bare and this = 1 and call = "run 0"
      and v = 7 and e = "''boom''" and vs = "[]" and n = 0 and td = "[ConsoleLog ''released'']"]
  note c = missing_handlers_are_safe [where w = demo_empty and this = 0 and call = "run 0"
      and v = 7 and e = "''boom''" and vs = "[1, 2, 3]" and n = 0 and td = "[]"]
  from a h have
    "Observer_next (run 0) 0 7 demo_bare = Return () demo_bare"
    "Observer_error (run 0) 0 ''boom'' demo_bare = Return () (set_isUnsubscribed 0 demo_bare)"
    "Observer_complete (run 0) 0 demo_bare = Return () (set_isUnsubscribed 0 demo_bare)"
    by blast+
  moreover from b h t have
    "Observer_error (run (Suc 0)) 1 ''boom'' demo_bare =
     Return () ((set_isUnsubscribed 1 demo_bare)\<lparr>trace := [TeardownCalled 1], console := [''released'']\<rparr>)"
    "Observer_complete (run (Suc 0)) 1 demo_bare =
     Return () ((set_isUnsubscribed 1 demo_bare)\<lparr>trace := [TeardownCalled 1], console := [''released'']\<rparr>)"
    by (simp_all del: run.simps)
  moreover from c t have "Observable_subscribe (run (Suc 0)) (Observable_from [1, 2, 3])
       \<lparr>h_next = None, h_error = None, h_complete = None\<rparr> demo_empty =
     Return (Subscription 0)
       \<lparr>heap = [\<lparr>handlers = \<lparr>h_next = None, h_error = None, h_complete = None\<rparr>,
                  isUnsubscribed = True, unsubscribe_cb = Some [ConsoleLog ''unsubscribed'']\<rparr>],
        trace = [], console = []\<rparr>"
    by (simp del: run.simps)
  ultimately show ?thesis using h p s i by (simp del: run.simps)
qed

subsection \<open>Unsubscribing halts delivery\<close>

text \<open>C6. After \<^verbatim>\<open>unsubscribe()\<close> has been called on an Observer at any point (whether
  it returned or its teardown threw), the Observer is unsubscribed and the call itself
  invoked none of its handlers; and whatever closure runs afterwards, for instance the
  rest of the producer with its \<^verbatim>\<open>next\<close>, \<^verbatim>\<open>error\<close> and \<^verbatim>\<open>complete\<close> calls, no handler of
  that Observer is invoked.\<close>

theorem unsubscribe_halts_delivery:
  assumes "this < length (heap w)"
    and "result_world (Observer_unsubscribe (run n) this w) = Some w1"
    and "result_world (run m body w1) = Some w2"
  shows "isUnsubscribed (heap w1 ! this) \<and>
         handler_calls this (trace w1) = handler_calls this (trace w) \<and>
         isUnsubscribed (heap w2 ! this) \<and>
         handler_calls this (trace w2) = handler_calls this (trace w1)"
proof -
  note u = Observer_unsubscribe_sets [OF assms(1,2)]
  from evolves_inert [OF run_evolves [OF assms(3)] u(1,2)] u(2,3)
  show ?thesis by simp
qed

theorem unsubscribe_halts_delivery_witness:
  "0 < length (heap demo_active) \<and>
   result_world (Observer_unsubscribe (run (Suc 0)) 0 demo_active) = Some demo_unsubscribed \<and>
   result_world (run (Suc (Suc 0)) [CallNext 0 2, CallError 0 ''late'', CallComplete 0] demo_unsubscribed)
     = Some demo_unsubscribed \<and>
   isUnsubscribed (heap demo_unsubscribed ! 0) \<and>
   handler_calls 0 (trace demo_unsubscribed) = handler_calls 0 (trace demo_active) \<and>
   isUnsubscribed (heap demo_unsubscribed ! 0) \<and>
   handler_calls 0 (trace demo_unsubscribed) = handler_calls 0 (trace demo_unsubscribed)"
proof -
  have h1: "0 < length (heap demo_active)" by (simp add: demo_handlers_def demo_active_def demo_unsubscribed_def)
  have h2: "result_world (Observer_unsubscribe (run (Suc 0)) 0 demo_active) = Some demo_unsubscribed"
    by (simp add: demo_handlers_def demo_active_def demo_unsubscribed_def core_defs)
  have h3: "result_world (run (Suc (Suc 0)) [CallNext 0 2, CallError 0 ''late'', CallComplete 0] demo_unsubscribed)
     = Some demo_unsubscribed"
    by (simp add: demo_handlers_def demo_active_def demo_unsubscribed_def core_defs)
  show ?thesis using unsubscribe_halts_delivery [OF h1 h2 h3] h1 h2 h3 by simp
qed

subsection \<open>What subscribe does\<close>

text \<open>C7. \<^verbatim>\<open>subscribe(handlers)\<close> allocates a new Observer, made from the handlers, at a
  reference that was not in use. It returns exactly when the producer, run on that
  Observer, has returned, and the world it returns is the one the producer left, with
  the returned teardown stored in the \<^verbatim>\<open>_unsubscribe\<close> field of the Observer: the handlers,
  the flag and the trace are the producer's. The handle it returns is the one of that
  Observer, and \<^verbatim>\<open>unsubscribe()\<close> on the handle is \<^verbatim>\<open>unsubscribe()\<close> on the Observer.\<close>

theorem subscribe_control_flow:
  assumes "subscribe_fn obs (length (heap w)) = (body, teardown)"
  shows "heap (w\<lparr>heap := heap w @ [Observer_new hs]\<rparr>) ! length (heap w) = Observer_new hs \<and>
    (Observable_subscribe (run n) obs hs w = Return sub w3 \<longleftrightarrow>
       sub = Subscription (length (heap w)) \<and>
       (\<exists>w2. run n body (w\<lparr>heap := heap w @ [Observer_new hs]\<rparr>) = Return () w2 \<and>
             w3 = set_unsubscribe_cb (length (heap w)) teardown w2)) \<and>
    (run n body (w\<lparr>heap := heap w @ [Observer_new hs]\<rparr>) = Return () w2 \<longrightarrow>
       Observable_subscribe (run n) obs hs w =
         Return (Subscription (length (heap w))) (set_unsubscribe_cb (length (heap w)) teardown w2) \<and>
       handlers (heap (set_unsubscribe_cb (length (heap w)) teardown w2) ! length (heap w)) = hs \<and>
       unsubscribe_cb (heap (set_unsubscribe_cb (length (heap w)) teardown w2) ! length (heap w))
         = Some teardown \<and>
       isUnsubscribed (heap (set_unsubscribe_cb (length (heap w)) teardown w2) ! length (heap w))
         = isUnsubscribed (heap w2 ! length (heap w)) \<and>
       trace (set_unsubscribe_cb (length (heap w)) teardown w2) = trace w2) \<and>
    subscription_unsubscribe call (Subscription (length (heap w))) u
      = Observer_unsubscribe call (length (heap w)) u"
proof (intro conjI impI)
  let ?r = "length (heap w)"
  let ?w1 = "w\<lparr>heap := heap w @ [Observer_new hs]\<rparr>"
  show "heap ?w1 ! ?r = Observer_new hs" by simp
  show "Observable_subscribe (run n) obs hs w = Return sub w3 \<longleftrightarrow>
       sub = Subscription ?r \<and>
       (\<exists>w2. run n body ?w1 = Return () w2 \<and> w3 = set_unsubscribe_cb ?r teardown w2)"
    using assms by (simp add: subscribe_Return)
  show "subscription_unsubscribe call (Subscription ?r) u = Observer_unsubscribe call ?r u"
    by simp
  assume r: "run n body ?w1 = Return () w2"
  then show s: "Observable_subscribe (run n) obs hs w =
         Return (Subscription ?r) (set_unsubscribe_cb ?r teardown w2)"
    using assms by (simp add: subscribe_Return)
  from subscribe_Return_facts(3,4) [OF s] assms
  show "handlers (heap (set_unsubscribe_cb ?r teardown w2) ! ?r) = hs"
    and "unsubscribe_cb (heap (set_unsubscribe_cb ?r teardown w2) ! ?r) = Some teardown"
    by simp_all
  from r have "evolves ?w1 w2" using run_evolves [of n body ?w1 w2] by simp
  then have "?r < length (heap w2)" by (simp add: evolves_def)
  then show "isUnsubscribed (heap (set_unsubscribe_cb ?r teardown w2) ! ?r)
         = isUnsubscribed (heap w2 ! ?r)"
    by (simp add: set_unsubscribe_cb_simps)
  show "trace (set_unsubscribe_cb ?r teardown w2) = trace w2"
    by (simp add: set_unsubscribe_cb_simps)
qed

theorem subscribe_control_flow_witness:
  "subscribe_fn demo_ticker (length (heap demo_empty)) = ([CallNext 0 1], [ConsoleLog ''unsubscribed'']) \<and>
   heap (demo_empty\<lparr>heap := heap demo_empty @ [Observer_new demo_handlers]\<rparr>) ! length (heap demo_empty)
     = Observer_new demo_handlers \<and>
   run (Suc (Suc 0)) [CallNext 0 1] (demo_empty\<lparr>heap := heap demo_empty @ [Observer_new demo_handlers]\<rparr>)
     = Return () demo_emitted \<and>
   Observable_subscribe (run (Suc (Suc 0))) demo_ticker demo_handlers demo_empty
     = Return (Subscription 0) demo_active \<and>
   handlers (heap demo_active ! 0) = demo_handlers \<and>
   unsubscribe_cb (heap demo_active ! 0) = Some [ConsoleLog ''unsubscribed''] \<and>
   isUnsubscribed (heap demo_active ! 0) = isUnsubscribed (heap demo_emitted ! 0) \<and>
   trace demo_active = trace demo_emitted \<and>
   subscription_unsubscribe (run (Suc 0)) (Subscription 0) demo_active
     = Observer_unsubscribe (run (Suc 0)) 0 demo_active"
proof -
  have h: "subscribe_fn demo_ticker (length (heap demo_empty))
      = ([CallNext 0 1], [ConsoleLog ''unsubscribed''])"
    by (simp add: demo_handlers_def demo_active_def demo_empty_def demo_emitted_def demo_ticker_def)
  have r: "run (Suc (Suc 0)) [CallNext 0 1]
      (demo_empty\<lparr>heap := heap demo_empty @ [Observer_new demo_handlers]\<rparr>) = Return () demo_emitted"
    by (simp add: demo_handlers_def demo_active_def demo_empty_def demo_emitted_def demo_ticker_def core_defs Observer_new_def)
  have e: "length (heap demo_empty) = 0"
    "set_unsubscribe_cb 0 [ConsoleLog ''unsubscribed''] demo_emitted = demo_active"
    by (simp_all add: demo_handlers_def demo_active_def demo_empty_def demo_emitted_def demo_ticker_def set_unsubscribe_cb_def)
  from subscribe_control_flow [OF h, where hs = demo_handlers and n = "Suc (Suc 0)"
      and ?w2.0 = demo_emitted and call = "run (Suc 0)" and u = demo_active
      and sub = "Subscription 0" and ?w3.0 = demo_active] r e h
  show ?thesis by (simp del: run.simps subscription_unsubscribe.simps)
qed

subsection \<open>Two subscriptions\<close>

text \<open>C8. Two \<^verbatim>\<open>subscribe\<close> calls on one Observable give two different Observers, each
  with the handlers it was given and the teardown its own run of the producer returned;
  the Observable itself is a value that \<^verbatim>\<open>subscribe\<close> only reads. What is done to one
  leaves the other alone: the second \<^verbatim>\<open>subscribe\<close> changes neither the first Observer nor
  its events, and any later closure that does not itself call the methods of an
  Observer (unsubscribing or terminating the other one, say) changes neither that
  Observer nor its events. Here the closures of the user are taken not to call the
  methods of the Observer that is to stay as it is: what they do is theirs, not the
  core's.\<close>

theorem subscriptions_are_independent:
  assumes s1: "Observable_subscribe (run n) obs hs1 w = Return (Subscription a) w1"
    and s2: "Observable_subscribe (run n') obs hs2 w1 = Return (Subscription b) w2"
  shows "a \<noteq> b \<and> a < length (heap w2) \<and> b < length (heap w2) \<and>
     handlers (heap w1 ! a) = hs1 \<and> handlers (heap w2 ! b) = hs2 \<and>
     unsubscribe_cb (heap w1 ! a) = Some (snd (subscribe_fn obs a)) \<and>
     unsubscribe_cb (heap w2 ! b) = Some (snd (subscribe_fn obs b)) \<and>
     (isolated a (w1\<lparr>heap := heap w1 @ [Observer_new hs2]\<rparr>) \<and>
      avoids a (fst (subscribe_fn obs b)) \<longrightarrow>
        heap w2 ! a = heap w1 ! a \<and> events_of a (trace w2) = events_of a (trace w1)) \<and>
     (isolated b w2 \<and> avoids b body \<and> result_world (run m body w2) = Some w3 \<longrightarrow>
        heap w3 ! b = heap w2 ! b \<and> events_of b (trace w3) = events_of b (trace w2)) \<and>
     (isolated a w2 \<and> avoids a body' \<and> result_world (run m' body' w2) = Some w3' \<longrightarrow>
        heap w3' ! a = heap w2 ! a \<and> events_of a (trace w3') = events_of a (trace w2))"
proof -
  note f1 = subscribe_Return_facts [OF s1]
  note f2 = subscribe_Return_facts [OF s2]
  from f1(1) have a: "a = length (heap w)" by simp
  from f2(1) f1(2) have b: "b = Suc (length (heap w))" by simp
  have ab: "a \<noteq> b" using a b by simp
  have first: "isolated a (w1\<lparr>heap := heap w1 @ [Observer_new hs2]\<rparr>) \<and>
      avoids a (fst (subscribe_fn obs b)) \<longrightarrow>
        heap w2 ! a = heap w1 ! a \<and> events_of a (trace w2) = events_of a (trace w1)"
  proof
    let ?w1' = "w1\<lparr>heap := heap w1 @ [Observer_new hs2]\<rparr>"
    assume i: "isolated a ?w1' \<and> avoids a (fst (subscribe_fn obs b))"
    from s2 obtain u where r: "run n' (fst (subscribe_fn obs b)) ?w1' = Return () u"
      and w2: "w2 = set_unsubscribe_cb b (snd (subscribe_fn obs b)) u"
      unfolding subscribe_Return using f2(1) by auto
    from r have "result_world (run n' (fst (subscribe_fn obs b)) ?w1') = Some u" by simp
    with i have "frame a ?w1' u" by (blast intro: run_frame)
    moreover have "heap ?w1' ! a = heap w1 ! a" using a f1(2) by (simp add: nth_append)
    ultimately show "heap w2 ! a = heap w1 ! a \<and> events_of a (trace w2) = events_of a (trace w1)"
      using w2 ab by (simp add: frame_def set_unsubscribe_cb_simps)
  qed
  have later: "isolated c w2 \<and> avoids c bd \<and> result_world (run k bd w2) = Some u \<longrightarrow>
        heap u ! c = heap w2 ! c \<and> events_of c (trace u) = events_of c (trace w2)" for c bd k u
    using run_frame [of c w2 bd k u] by (auto simp: frame_def)
  have "a < length (heap w2)" "b < length (heap w2)" using a b f1(2) f2(2) by simp_all
  moreover have "handlers (heap w1 ! a) = hs1" "handlers (heap w2 ! b) = hs2"
    "unsubscribe_cb (heap w1 ! a) = Some (snd (subscribe_fn obs a))"
    "unsubscribe_cb (heap w2 ! b) = Some (snd (subscribe_fn obs b))"
    using a b f1 f2 by simp_all
  ultimately show ?thesis
    using ab first later [of b body m w3] later [of a body' m' w3'] by blast
qed

theorem subscriptions_are_independent_witness:
  "Observable_subscribe (run (Suc (Suc 0))) demo_ticker demo_handlers demo_empty
     = Return (Subscription 0) demo_active \<and>
   Observable_subscribe (run (Suc (Suc 0))) demo_ticker demo_handlers demo_active
     = Return (Subscription 1) demo_two \<and>
   (0::nat) \<noteq> 1 \<and> 0 < length (heap demo_two) \<and> 1 < length (heap demo_two) \<and>
   handlers (heap demo_active ! 0) = demo_handlers \<and> handlers (heap demo_two ! 1) = demo_handlers \<and>
   unsubscribe_cb (heap demo_active ! 0) = Some (snd (subscribe_fn demo_ticker 0)) \<and>
   unsubscribe_cb (heap demo_two ! 1) = Some (snd (subscribe_fn demo_ticker 1)) \<and>
   isolated 0 (demo_active\<lparr>heap := heap demo_active @ [Observer_new demo_handlers]\<rparr>) \<and>
   avoids 0 (fst (subscribe_fn demo_ticker 1)) \<and>
   heap demo_two ! 0 = heap demo_active ! 0 \<and>
   events_of 0 (trace demo_two) = events_of 0 (trace demo_active) \<and>
   isolated 1 demo_two \<and> avoids 1 [CallUnsubscribe 0 :: (nat, string) stmt] \<and>
   result_world (run (Suc (Suc 0)) [CallUnsubscribe 0] demo_two) = Some demo_two_first_unsubscribed \<and>
   heap demo_two_first_unsubscribed ! 1 = heap demo_two ! 1 \<and>
   events_of 1 (trace demo_two_first_unsubscribed) = events_of 1 (trace demo_two) \<and>
   isolated 0 demo_two \<and> avoids 0 [CallError 1 ''boom'' :: (nat, string) stmt] \<and>
   result_world (run (Suc (Suc 0)) [CallError 1 ''boom''] demo_two) = Some demo_two_second_failed \<and>
   heap demo_two_second_failed ! 0 = heap demo_two ! 0 \<and>
   events_of 0 (trace demo_two_second_failed) = events_of 0 (trace demo_two)"
proof -
  have s1: "Observable_subscribe (run (Suc (Suc 0))) demo_ticker demo_handlers demo_empty
     = Return (Subscription 0) demo_active"
    by (simp add: demo_handlers_def demo_active_def demo_empty_def demo_ticker_def demo_two_def demo_two_first_unsubscribed_def demo_two_second_failed_def core_defs Observable_subscribe_def Observer_new_def)
  have s2: "Observable_subscribe (run (Suc (Suc 0))) demo_ticker demo_handlers demo_active
     = Return (Subscription 1) demo_two"
    by (simp add: demo_handlers_def demo_active_def demo_empty_def demo_ticker_def demo_two_def demo_two_first_unsubscribed_def demo_two_second_failed_def core_defs Observable_subscribe_def Observer_new_def)
  have i1: "isolated 0 (demo_active\<lparr>heap := heap demo_active @ [Observer_new demo_handlers]\<rparr>) \<and>
     avoids 0 (fst (subscribe_fn demo_ticker 1))"
    by (simp add: demo_handlers_def demo_active_def demo_empty_def demo_ticker_def demo_two_def demo_two_first_unsubscribed_def demo_two_second_failed_def isolated_def observer_avoids_def avoids_def Observer_new_def
        less_Suc_eq)
  have i2: "isolated 1 demo_two \<and> avoids 1 [CallUnsubscribe 0 :: (nat, string) stmt] \<and>
     result_world (run (Suc (Suc 0)) [CallUnsubscribe 0] demo_two) = Some demo_two_first_unsubscribed"
    by (simp add: demo_handlers_def demo_active_def demo_empty_def demo_ticker_def demo_two_def demo_two_first_unsubscribed_def demo_two_second_failed_def core_defs isolated_def observer_avoids_def avoids_def less_Suc_eq)
  have i3: "isolated 0 demo_two \<and> avoids 0 [CallError 1 ''boom'' :: (nat, string) stmt] \<and>
     result_world (run (Suc (Suc 0)) [CallError 1 ''boom''] demo_two) = Some demo_two_second_failed"
    by (simp add: demo_handlers_def demo_active_def demo_empty_def demo_ticker_def demo_two_def demo_two_first_unsubscribed_def demo_two_second_failed_def core_defs isolated_def observer_avoids_def avoids_def less_Suc_eq)
  from subscriptions_are_independent [OF s1 s2, where body = "[CallUnsubscribe 0]"
      and m = "Suc (Suc 0)" and ?w3.0 = demo_two_first_unsubscribed
      and body' = "[CallError 1 ''boom'']" and m' = "Suc (Suc 0)"
      and w3' = demo_two_second_failed] s1 s2 i1 i2 i3
  show ?thesis by blast
qed

subsection \<open>The teardown is registered after the producer has run\<close>

text \<open>C9. While \<^verbatim>\<open>subscribe\<close> runs the producer, the \<^verbatim>\<open>_unsubscribe\<close> field of the new
  Observer is still empty, so whatever the producer does, \<^verbatim>\<open>complete()\<close> and
  \<^verbatim>\<open>unsubscribe()\<close> included, the teardown of that Observer is not invoked before \<^verbatim>\<open>subscribe\<close>
  returns or throws. For \<^verbatim>\<open>from(vs)\<close>: the subscription returns unsubscribed, with the
  trace of the emissions and no teardown invocation; \<^verbatim>\<open>next\<close>, \<^verbatim>\<open>error\<close> and \<^verbatim>\<open>complete\<close>
  do nothing on it; only a further \<^verbatim>\<open>unsubscribe()\<close>, on the handle, invokes the teardown.\<close>

theorem teardown_not_run_during_subscribe:
  "(result_world (Observable_subscribe (run n) obs hs w) = Some w' \<longrightarrow>
      teardown_calls (length (heap w)) (trace w') = teardown_calls (length (heap w)) (trace w)) \<and>
   (h_next hs = Some f \<and> (\<forall>v. plain (f v)) \<and> h_complete hs = Some g \<and> plain g \<longrightarrow>
      (\<exists>w1. Observable_subscribe (run (Suc (Suc k))) (Observable_from vs) hs w =
               Return (Subscription (length (heap w))) w1 \<and>
            isUnsubscribed (heap w1 ! length (heap w)) \<and>
            trace w1 = trace w @ map (NextCalled (length (heap w))) vs
                         @ [CompleteCalled (length (heap w))] \<and>
            Observer_next call (length (heap w)) v w1 = Return () w1 \<and>
            Observer_error call (length (heap w)) e w1 = Return () w1 \<and>
            Observer_complete call (length (heap w)) w1 = Return () w1 \<and>
            subscription_unsubscribe (run (Suc m)) (Subscription (length (heap w))) w1 =
              Return () (w1\<lparr>trace := trace w1 @ [TeardownCalled (length (heap w))],
                            console := console w1 @ [''unsubscribed'']\<rparr>)))"
proof (intro conjI impI)
  let ?r = "length (heap w)"
  let ?w1 = "w\<lparr>heap := heap w @ [Observer_new hs]\<rparr>"
  assume "result_world (Observable_subscribe (run n) obs hs w) = Some w'"
  from subscribe_world [OF this] obtain w2 where
    r: "result_world (run n (fst (subscribe_fn obs ?r)) ?w1) = Some w2"
    and w': "w' = w2 \<or> w' = set_unsubscribe_cb ?r (snd (subscribe_fn obs ?r)) w2"
    by blast
  have "evolves ?w1 w2" using r by (rule run_evolves)
  moreover have "?r < length (heap ?w1)" "unsubscribe_cb (heap ?w1 ! ?r) = None"
    by (simp_all add: Observer_new_def)
  ultimately have "teardown_calls ?r (trace w2) = teardown_calls ?r (trace ?w1)"
    by (simp add: evolves_def)
  with w' show "teardown_calls ?r (trace w') = teardown_calls ?r (trace w)"
    by (auto simp: set_unsubscribe_cb_simps)
next
  let ?r = "length (heap w)"
  let ?w1 = "w\<lparr>heap := heap w @ [\<lparr>handlers = hs, isUnsubscribed = True,
                           unsubscribe_cb = Some [ConsoleLog ''unsubscribed'']\<rparr>],
          trace := trace w @ map (NextCalled ?r) vs @ [CompleteCalled ?r],
          console := console w @ concat (map (\<lambda>v. logs (f v)) vs) @ logs g\<rparr>"
  assume a: "h_next hs = Some f \<and> (\<forall>v. plain (f v)) \<and> h_complete hs = Some g \<and> plain g"
  then have s: "Observable_subscribe (run (Suc (Suc k))) (Observable_from vs) hs w =
            Return (Subscription ?r) ?w1"
    by (intro from_subscribe_plain) simp_all
  have i: "?r < length (heap ?w1)" "isUnsubscribed (heap ?w1 ! ?r)"
    and u: "unsubscribe_cb (heap ?w1 ! ?r) = Some [ConsoleLog ''unsubscribed'']"
    and p: "plain [ConsoleLog ''unsubscribed'' :: ('a, 'b) stmt]"
    by (simp_all add: plain_def)
  have "subscription_unsubscribe (run (Suc m)) (Subscription ?r) ?w1 =
      Return () (?w1\<lparr>trace := trace ?w1 @ [TeardownCalled ?r],
                     console := console ?w1 @ [''unsubscribed'']\<rparr>)"
    using Observer_unsubscribe_plain [OF i(1) u p, of m]
    by (simp add: set_isUnsubscribed_def del: run.simps)
  with s inert_no_op [OF i, of call] i(2)
  show "\<exists>w1. Observable_subscribe (run (Suc (Suc k))) (Observable_from vs) hs w =
               Return (Subscription (length (heap w))) w1 \<and>
            isUnsubscribed (heap w1 ! length (heap w)) \<and>
            trace w1 = trace w @ map (NextCalled (length (heap w))) vs
                         @ [CompleteCalled (length (heap w))] \<and>
            Observer_next call (length (heap w)) v w1 = Return () w1 \<and>
            Observer_error call (length (heap w)) e w1 = Return () w1 \<and>
            Observer_complete call (length (heap w)) w1 = Return () w1 \<and>
            subscription_unsubscribe (run (Suc m)) (Subscription (length (heap w))) w1 =
              Return () (w1\<lparr>trace := trace w1 @ [TeardownCalled (length (heap w))],
                            console := console w1 @ [''unsubscribed'']\<rparr>)"
    by (intro exI [of _ ?w1]) (simp del: run.simps)
qed

theorem teardown_not_run_during_subscribe_witness:
  "result_world (Observable_subscribe (run (Suc (Suc 0))) (Observable_from [10, 20]) demo_handlers
      demo_empty) = Some demo_done \<and>
   teardown_calls 0 (trace demo_done) = teardown_calls 0 (trace demo_empty) \<and>
   h_next demo_handlers = Some (\<lambda>v. [ConsoleLog ''next'']) \<and>
   (\<forall>v::nat. plain [ConsoleLog ''next'' :: (nat, string) stmt]) \<and>
   h_complete demo_handlers = Some [ConsoleLog ''complete''] \<and>
   plain [ConsoleLog ''complete'' :: (nat, string) stmt] \<and>
   Observable_subscribe (run (Suc (Suc 0))) (Observable_from [10, 20]) demo_handlers demo_empty =
     Return (Subscription 0) demo_done \<and>
   isUnsubscribed (heap demo_done ! 0) \<and>
   trace demo_done = [NextCalled 0 10, NextCalled 0 20, CompleteCalled 0] \<and>
   Observer_next (run (Suc 0)) 0 30 demo_done = Return () demo_done \<and>
   Observer_error (run (Suc 0)) 0 ''late'' demo_done = Return () demo_done \<and>
   Observer_complete (run (Suc 0)) 0 demo_done = Return () demo_done \<and>
   subscription_unsubscribe (run (Suc 0)) (Subscription 0) demo_done =
     Return () demo_done_unsubscribed"
proof -
  have e: "Observable_subscribe (run (Suc (Suc 0))) (Observable_from [10, 20]) demo_handlers demo_empty =
     Return (Subscription 0) demo_done"
    by (simp add: demo_handlers_def demo_empty_def demo_done_def demo_done_unsubscribed_def core_defs Observable_subscribe_def Observable_from_def Observer_new_def)
  have h: "h_next demo_handlers = Some (\<lambda>v. [ConsoleLog ''next'']) \<and>
     (\<forall>v::nat. plain [ConsoleLog ''next'' :: (nat, string) stmt]) \<and>
     h_complete demo_handlers = Some [ConsoleLog ''complete''] \<and>
     plain [ConsoleLog ''complete'' :: (nat, string) stmt]"
    by (simp add: demo_handlers_def demo_empty_def demo_done_def demo_done_unsubscribed_def plain_def)
  have l: "length (heap demo_empty) = 0" "trace demo_empty = []" by (simp_all add: demo_empty_def)
  have d: "demo_done\<lparr>trace := trace demo_done @ [TeardownCalled 0],
                     console := console demo_done @ [''unsubscribed'']\<rparr> = demo_done_unsubscribed"
    by (simp add: demo_handlers_def demo_empty_def demo_done_def demo_done_unsubscribed_def)
  note t = teardown_not_run_during_subscribe [where n = "Suc (Suc 0)" and obs = "Observable_from [10, 20]"
      and hs = demo_handlers and w = demo_empty and w' = demo_done
      and f = "\<lambda>v. [ConsoleLog ''next'']" and g = "[ConsoleLog ''complete'']" and k = 0
      and vs = "[10, 20]" and call = "run (Suc 0)" and v = 30 and e = "''late''" and m = 0]
  from t e have 1: "teardown_calls 0 (trace demo_done) = teardown_calls 0 (trace demo_empty)"
    by (simp add: l del: run.simps)
  from t h obtain w1 where
    w1: "Observable_subscribe (run (Suc (Suc 0))) (Observable_from [10, 20]) demo_handlers demo_empty =
               Return (Subscription (length (heap demo_empty))) w1"
      "isUnsubscribed (heap w1 ! length (heap demo_empty))"
      "trace w1 = trace demo_empty @ map (NextCalled (length (heap demo_empty))) [10, 20]
                         @ [CompleteCalled (length (heap demo_empty))]"
      "Observer_next (run (Suc 0)) (length (heap demo_empty)) 30 w1 = Return () w1"
      "Observer_error (run (Suc 0)) (length (heap demo_empty)) ''late'' w1 = Return () w1"
      "Observer_complete (run (Suc 0)) (length (heap demo_empty)) w1 = Return () w1"
      "subscription_unsubscribe (run (Suc 0)) (Subscription (length (heap demo_empty))) w1 =
              Return () (w1\<lparr>trace := trace w1 @ [TeardownCalled (length (heap demo_empty))],
                            console := console w1 @ [''unsubscribed'']\<rparr>)"
    by blast
  from w1(1) e have "w1 = demo_done" by simp
  with w1 l d have
      "isUnsubscribed (heap demo_done ! 0)"
      "trace demo_done = [NextCalled 0 10, NextCalled 0 20, CompleteCalled 0]"
      "Observer_next (run (Suc 0)) 0 30 demo_done = Return () demo_done"
      "Observer_error (run (Suc 0)) 0 ''late'' demo_done = Return () demo_done"
      "Observer_complete (run (Suc 0)) 0 demo_done = Return () demo_done"
      "subscription_unsubscribe (run (Suc 0)) (Subscription 0) demo_done =
         Return () demo_done_unsubscribed"
    by (simp_all del: run.simps subscription_unsubscribe.simps)
  with 1 e h show ?thesis by (simp del: run.simps subscription_unsubscribe.simps)
qed

subsection \<open>A terminal handler runs before the flag is set\<close>

text \<open>C10. \<^verbatim>\<open>error(e)\<close> and \<^verbatim>\<open>complete()\<close> invoke the handler in a world where the flag of the
  Observer is still false, and set it afterwards. So on an active Observer a handler of
  \<^verbatim>\<open>complete\<close> or \<^verbatim>\<open>error\<close> that calls \<^verbatim>\<open>next(v)\<close> on the same Observer gets the \<^verbatim>\<open>next\<close>
  handler invoked with \<open>v\<close>: the trace shows the terminal invocation, then the one of
  \<^verbatim>\<open>next\<close>, and only then does \<^verbatim>\<open>unsubscribe()\<close> run.\<close>

theorem terminal_handler_may_reenter_next:
  assumes "this < length (heap w)" and "\<not> isUnsubscribed (heap w ! this)"
    and "h_next (handlers (heap w ! this)) = Some f" and "plain (f v)"
  shows "\<not> isUnsubscribed (heap (record_event (CompleteCalled this) w) ! this) \<and>
         \<not> isUnsubscribed (heap (record_event (ErrorCalled this e) w) ! this) \<and>
         (h_complete (handlers (heap w ! this)) = Some [CallNext this v] \<longrightarrow>
            Observer_complete (run (Suc (Suc n))) this w =
              Observer_unsubscribe (run (Suc (Suc n))) this
                (w\<lparr>trace := trace w @ [CompleteCalled this, NextCalled this v],
                   console := console w @ logs (f v)\<rparr>)) \<and>
         (h_error (handlers (heap w ! this)) = Some fe \<and> fe e = [CallNext this v] \<longrightarrow>
            Observer_error (run (Suc (Suc n))) this e w =
              Observer_unsubscribe (run (Suc (Suc n))) this
                (w\<lparr>trace := trace w @ [ErrorCalled this e, NextCalled this v],
                   console := console w @ logs (f v)\<rparr>))"
proof (intro conjI impI)
  show "\<not> isUnsubscribed (heap (record_event (CompleteCalled this) w) ! this)"
    and "\<not> isUnsubscribed (heap (record_event (ErrorCalled this e) w) ! this)"
    using assms(2) by (simp_all add: record_event_def)
next
  let ?wa = "record_event (CompleteCalled this) w"
  assume c: "h_complete (handlers (heap w ! this)) = Some [CallNext this v]"
  have "this < length (heap ?wa)" "\<not> isUnsubscribed (heap ?wa ! this)"
    "h_next (handlers (heap ?wa ! this)) = Some f"
    using assms by (simp_all add: record_event_def)
  from Observer_next_plain [OF this assms(4), of n]
  have "run (Suc (Suc n)) [CallNext this v] ?wa =
      Return () (w\<lparr>trace := trace w @ [CompleteCalled this, NextCalled this v],
                   console := console w @ logs (f v)\<rparr>)"
    by (simp add: record_event_def del: run.simps add: run.simps(2) [of "Suc n"])
  with assms c show "Observer_complete (run (Suc (Suc n))) this w =
              Observer_unsubscribe (run (Suc (Suc n))) this
                (w\<lparr>trace := trace w @ [CompleteCalled this, NextCalled this v],
                   console := console w @ logs (f v)\<rparr>)"
    by (simp add: Observer_complete_def del: run.simps)
next
  let ?wa = "record_event (ErrorCalled this e) w"
  assume c: "h_error (handlers (heap w ! this)) = Some fe \<and> fe e = [CallNext this v]"
  have "this < length (heap ?wa)" "\<not> isUnsubscribed (heap ?wa ! this)"
    "h_next (handlers (heap ?wa ! this)) = Some f"
    using assms by (simp_all add: record_event_def)
  from Observer_next_plain [OF this assms(4), of n]
  have "run (Suc (Suc n)) [CallNext this v] ?wa =
      Return () (w\<lparr>trace := trace w @ [ErrorCalled this e, NextCalled this v],
                   console := console w @ logs (f v)\<rparr>)"
    by (simp add: record_event_def del: run.simps add: run.simps(2) [of "Suc n"])
  with assms c show "Observer_error (run (Suc (Suc n))) this e w =
              Observer_unsubscribe (run (Suc (Suc n))) this
                (w\<lparr>trace := trace w @ [ErrorCalled this e, NextCalled this v],
                   console := console w @ logs (f v)\<rparr>)"
    by (simp add: Observer_error_def del: run.simps)
qed

theorem terminal_handler_may_reenter_next_witness:
  "0 < length (heap demo_reentrant) \<and> \<not> isUnsubscribed (heap demo_reentrant ! 0) \<and>
   h_next (handlers (heap demo_reentrant ! 0)) = Some (\<lambda>v. [ConsoleLog ''next'']) \<and>
   plain [ConsoleLog ''next'' :: (nat, string) stmt] \<and>
   \<not> isUnsubscribed (heap (record_event (CompleteCalled 0) demo_reentrant) ! 0) \<and>
   \<not> isUnsubscribed (heap (record_event (ErrorCalled 0 ''boom'') demo_reentrant) ! 0) \<and>
   h_complete (handlers (heap demo_reentrant ! 0)) = Some [CallNext 0 99] \<and>
   Observer_complete (run (Suc (Suc 0))) 0 demo_reentrant =
     Return () (set_isUnsubscribed 0 demo_reentrant
        \<lparr>trace := [CompleteCalled 0, NextCalled 0 99], console := [''next'']\<rparr>) \<and>
   h_error (handlers (heap demo_reentrant ! 0)) = Some (\<lambda>e. [CallNext 0 99]) \<and>
   Observer_error (run (Suc (Suc 0))) 0 ''boom'' demo_reentrant =
     Return () (set_isUnsubscribed 0 demo_reentrant
        \<lparr>trace := [ErrorCalled 0 ''boom'', NextCalled 0 99], console := [''next'']\<rparr>)"
proof -
  have h1: "0 < length (heap demo_reentrant)" and h2: "\<not> isUnsubscribed (heap demo_reentrant ! 0)"
    and h3: "h_next (handlers (heap demo_reentrant ! 0)) = Some (\<lambda>v. [ConsoleLog ''next''])"
    and h5: "h_complete (handlers (heap demo_reentrant ! 0)) = Some [CallNext 0 99]"
    and h6: "h_error (handlers (heap demo_reentrant ! 0)) = Some (\<lambda>e. [CallNext 0 99])"
    by (simp_all add: demo_reentrant_def)
  have h4: "plain [ConsoleLog ''next'' :: (nat, string) stmt]" by (simp add: plain_def)
  have u: "Observer_unsubscribe (run (Suc (Suc 0))) 0
             (demo_reentrant\<lparr>trace := trace demo_reentrant @ tr, console := console demo_reentrant @ c\<rparr>)
           = Return () (set_isUnsubscribed 0 demo_reentrant\<lparr>trace := tr, console := c\<rparr>)" for tr c
    by (simp add: demo_reentrant_def Observer_unsubscribe_def set_isUnsubscribed_def)
  from terminal_handler_may_reenter_next [where this = 0 and w = demo_reentrant
      and f = "\<lambda>v. [ConsoleLog ''next'']" and v = 99 and e = "''boom''" and n = 0
      and fe = "\<lambda>e. [CallNext 0 99]", OF h1 h2 h3 h4] h5 h6 u
  show ?thesis using h1 h2 h3 h4 by (simp del: run.simps)
qed

end
